theory Spec2Isabelle
  imports Main "HOL-Library.AList" "HOL-Library.Sublist"
begin

section \<open>Data model\<close>

text \<open>
  The message engine of the chat backend: the request handlers of
  \<^verbatim>\<open>controllers/message.controller.js\<close>, the presence table of \<^verbatim>\<open>lib/socket.js\<close> and the
  \<^verbatim>\<open>Message\<close> schema. A handler is a function on a \<open>world\<close>: it returns the HTTP
  response, the new world and the socket events it emitted, in order. That is the handler
  served without interruption; the handlers that load a message and save it are also
  given in two steps, for the requests that overlap.

  Identifiers are MongoDB ObjectIds; the code compares them through \<^verbatim>\<open>toString()\<close>, which is
  injective, so they are natural numbers here. Strings are lists of characters, one
  \<open>char\<close> per code unit below 256. Timestamps are natural numbers and every handler is
  given the value of \<^verbatim>\<open>Date.now()\<close> it would read. Population of referenced users into
  response bodies and event payloads is left out: payloads carry the stored record.
\<close>

type_synonym user_id = nat
type_synonym message_id = nat
type_synonym socket_id = string
type_synonym timestamp = nat

record user =
  uid :: user_id
  fullName :: string
  email :: string
  profilePic :: string
  password :: "string option"

text \<open>The schema of \<^verbatim>\<open>Message\<close>; \<open>mid\<close> is \<^verbatim>\<open>_id\<close>, \<open>createdAt\<close> comes from \<^verbatim>\<open>timestamps: true\<close>.\<close>

record message =
  mid :: message_id
  senderId :: user_id
  receiverId :: user_id
  msg_text :: string
  msg_image :: "string option"
  video :: "string option"
  audio :: "string option"
  replyTo :: "message_id option"
  edited :: bool
  editedAt :: "timestamp option"
  deletedForMe :: "user_id list"
  deletedForEveryone :: bool
  reactions :: "(user_id \<times> string) list"
  readBy :: "(user_id \<times> timestamp) list"
  deliveredTo :: "(user_id \<times> timestamp) list"
  createdAt :: timestamp

text \<open>
  \<open>userSocketMap\<close> and \<open>typingUsers\<close> are JavaScript objects used as dictionaries. An
  association list keeps the insertion order that \<^verbatim>\<open>Object.keys\<close> reports: assignment to a
  present key keeps its place, assignment to a new key appends, \<^verbatim>\<open>delete\<close> removes.
\<close>

record world =
  users :: "user list"
  messages :: "message list"
  userSocketMap :: "(user_id \<times> socket_id) list"
  typingUsers :: "(user_id \<times> (user_id \<times> timestamp)) list"

text \<open>An error response: the status code \<open>n \<ge> 400\<close> and the text of its body.\<close>

datatype failure = Failure nat string

text \<open>
  The error taxonomy of the specification, read off the status code and, for status 400,
  the message: the refusal to edit a deleted message is the only conflict.
\<close>

datatype error_class =
  ValidationError | NotFoundError | PermissionError | ConflictError | UploadError | InternalError

fun error_class_of :: "failure \<Rightarrow> error_class" where
  "error_class_of (Failure n s) =
     (if n = 400 then (if s = ''Cannot edit a deleted message'' then ConflictError else ValidationError)
      else if n = 403 then PermissionError
      else if n = 404 then NotFoundError
      else if n = 500 \<and> prefix ''Failed to upload'' s then UploadError
      else InternalError)"

text \<open>
  Socket events. \<^verbatim>\<open>io.to(id).emit(name, payload)\<close> addresses one socket,
  \<^verbatim>\<open>io.emit(name, payload)\<close> all of them. A payload is a message record, an object literal
  given by its fields in order, or the list of online users.
\<close>

datatype target = ToSocket socket_id | Broadcast

datatype payload =
    PMessage message
  | PObject "(string \<times> nat) list"
  | PTyping user_id string
  | PStopped user_id
  | POnline "user_id list"

datatype event = Emit target string payload

fun event_target :: "event \<Rightarrow> target" where
  "event_target (Emit t n p) = t"

fun event_name :: "event \<Rightarrow> string" where
  "event_name (Emit t n p) = n"

fun event_payload :: "event \<Rightarrow> payload" where
  "event_payload (Emit t n p) = p"

fun payload_fields :: "payload \<Rightarrow> string list" where
  "payload_fields (PObject fs) = map fst fs"
| "payload_fields p = []"

section \<open>JavaScript strings\<close>

text \<open>The white space \<^verbatim>\<open>String.prototype.trim\<close> strips, among the code units below 256.\<close>

definition is_js_space :: "char \<Rightarrow> bool" where
  "is_js_space c = ((of_char c :: nat) \<in> {9, 10, 11, 12, 13, 32, 160})"

definition trim :: "string \<Rightarrow> string" where
  "trim s = rev (dropWhile is_js_space (rev (dropWhile is_js_space s)))"

text \<open>\<^verbatim>\<open>toLowerCase\<close>: the letters A-Z and the upper-case letters of Latin-1 move up by 32.\<close>

definition toLowerCase_char :: "char \<Rightarrow> char" where
  "toLowerCase_char c =
     (let n = (of_char c :: nat)
      in if (65 \<le> n \<and> n \<le> 90) \<or> (192 \<le> n \<and> n \<le> 222 \<and> n \<noteq> 215)
         then char_of (n + 32) else c)"

definition toLowerCase :: "string \<Rightarrow> string" where
  "toLowerCase s = map toLowerCase_char s"

text \<open>\<^verbatim>\<open>s.includes(n)\<close>: \<open>n\<close> starts at some position of \<open>s\<close>.\<close>

fun str_includes :: "string \<Rightarrow> string \<Rightarrow> bool" where
  "str_includes [] n = (n = [])"
| "str_includes (c # cs) n = (prefix n (c # cs) \<or> str_includes cs n)"

text \<open>Truthiness of a value that is \<^verbatim>\<open>undefined\<close> or a string.\<close>

definition truthy :: "string option \<Rightarrow> bool" where
  "truthy x = (case x of None \<Rightarrow> False | Some s \<Rightarrow> s \<noteq> [])"

section \<open>Presence table (lib/socket.js)\<close>

definition getReceiverSocketId :: "world \<Rightarrow> user_id \<Rightarrow> socket_id option" where
  "getReceiverSocketId w userId = map_of (userSocketMap w) userId"

text \<open>
  The pattern \<^verbatim>\<open>const id = getReceiverSocketId(u); if (id) io.to(id).emit(name, p)\<close> that
  every handler uses.
\<close>

definition emit_if_online :: "world \<Rightarrow> user_id \<Rightarrow> string \<Rightarrow> payload \<Rightarrow> event list" where
  "emit_if_online w u name p =
     (case getReceiverSocketId w u of
        None \<Rightarrow> []
      | Some s \<Rightarrow> if s \<noteq> [] then [Emit (ToSocket s) name p] else [])"

text \<open>
  The string a handler hands to \<^verbatim>\<open>getReceiverSocketId\<close> is the \<^verbatim>\<open>toString()\<close> of an
  identifier or, once \<^verbatim>\<open>populate()\<close> has put the user document in the identifier's place,
  the \<^verbatim>\<open>toString()\<close> of that document, which prints the document. The keys of
  \<open>userSocketMap\<close> are identifiers, so the printed document is none of them and the lookup
  is \<^verbatim>\<open>undefined\<close>. (The users a message refers to exist in the store.)
\<close>

datatype socket_key = OfId user_id | OfDocument user_id

fun lookup_key :: "world \<Rightarrow> socket_key \<Rightarrow> socket_id option" where
  "lookup_key w (OfId u) = getReceiverSocketId w u"
| "lookup_key w (OfDocument u) = None"

definition emit_if_found :: "world \<Rightarrow> socket_key \<Rightarrow> string \<Rightarrow> payload \<Rightarrow> event list" where
  "emit_if_found w k name p =
     (case lookup_key w k of
        None \<Rightarrow> []
      | Some s \<Rightarrow> if s \<noteq> [] then [Emit (ToSocket s) name p] else [])"

definition online_users :: "world \<Rightarrow> event" where
  "online_users w = Emit Broadcast ''getOnlineUsers'' (POnline (map fst (userSocketMap w)))"

text \<open>
  \<^verbatim>\<open>io.on("connection", ...)\<close> for a socket with identifier \<open>sid\<close> authenticated as
  \<open>userId\<close>.
\<close>

definition connection :: "world \<Rightarrow> user_id \<Rightarrow> socket_id \<Rightarrow> world \<times> event list" where
  "connection w userId sid =
     (let w' = w\<lparr>userSocketMap := AList.update userId sid (userSocketMap w)\<rparr>
      in (w', [online_users w']))"

text \<open>
  The \<^verbatim>\<open>disconnect\<close> handler registered on that socket. The handler reads \<open>userId\<close> only;
  \<open>sid\<close>, the identifier of the socket that is closing, is not used by it.
\<close>

definition disconnect :: "world \<Rightarrow> user_id \<Rightarrow> socket_id \<Rightarrow> world \<times> event list" where
  "disconnect w userId sid =
     (let w' = w\<lparr>userSocketMap := AList.delete userId (userSocketMap w),
                 typingUsers := AList.delete userId (typingUsers w)\<rparr>
      in (w', [online_users w']))"

definition typing :: "world \<Rightarrow> user_id \<Rightarrow> string \<Rightarrow> user_id \<Rightarrow> timestamp \<Rightarrow> world \<times> event list" where
  "typing w userId userName typingTo now =
     (let w' = w\<lparr>typingUsers := AList.update userId (typingTo, now) (typingUsers w)\<rparr>
      in (w', emit_if_online w' typingTo ''userTyping'' (PTyping userId userName)))"

definition stopTyping :: "world \<Rightarrow> user_id \<Rightarrow> user_id \<Rightarrow> world \<times> event list" where
  "stopTyping w userId typingTo =
     (let w' = w\<lparr>typingUsers := AList.delete userId (typingUsers w)\<rparr>
      in (w', emit_if_online w' typingTo ''userStoppedTyping'' (PStopped userId)))"

section \<open>Message store\<close>

definition findById :: "world \<Rightarrow> message_id \<Rightarrow> message option" where
  "findById w i = find (\<lambda>m. mid m = i) (messages w)"

text \<open>
  \<^verbatim>\<open>doc.save()\<close> on a loaded document updates the one stored document with its
  \<^verbatim>\<open>_id\<close>; on a new document it inserts, and the store refuses an \<^verbatim>\<open>_id\<close> that is taken.
  Validation runs first: \<^verbatim>\<open>text\<close> has \<^verbatim>\<open>maxlength: 2000\<close>. A refused save throws, and the
  handler's \<^verbatim>\<open>catch\<close> answers 500.

  In a handler that no other request interrupts, the stored document is still the loaded
  one when it is saved, and the save amounts to putting the changed document in its place:
  that is \<open>save\<close>. What a save writes when the store has changed since the load is in the
  section on overlapping requests.
\<close>

fun updateOne :: "message \<Rightarrow> message list \<Rightarrow> message list" where
  "updateOne m' [] = []"
| "updateOne m' (x # xs) = (if mid x = mid m' then m' # xs else x # updateOne m' xs)"

definition save :: "message \<Rightarrow> world \<Rightarrow> world" where
  "save m' w = w\<lparr>messages := updateOne m' (messages w)\<rparr>"

definition validates :: "message \<Rightarrow> bool" where
  "validates m = (length (msg_text m) \<le> 2000)"

definition internal_error :: failure where
  "internal_error = Failure 500 ''Internal server error''"

definition not_found :: failure where
  "not_found = Failure 404 ''Message not found''"

section \<open>Request handlers (controllers/message.controller.js)\<close>

subsection \<open>sendMessage\<close>

text \<open>
  The Blob Store is outside the engine: for each attached file the request carries the
  outcome of \<^verbatim>\<open>uploadToCloudinary\<close>, a rejection or the \<^verbatim>\<open>secure_url\<close>. It also carries
  the \<^verbatim>\<open>_id\<close> that \<^verbatim>\<open>new Message(...)\<close> generates and the time of the request.
\<close>

datatype upload = UploadFails | UploadOk string

record send_request =
  sr_sender :: user_id
  sr_receiver :: user_id
  sr_text :: "string option"
  sr_replyTo :: "message_id option"
  sr_image :: "upload option"
  sr_video :: "upload option"
  sr_audio :: "upload option"
  sr_newId :: message_id
  sr_now :: timestamp

fun secure_url :: "upload option \<Rightarrow> string option" where
  "secure_url None = None"
| "secure_url (Some UploadFails) = None"
| "secure_url (Some (UploadOk u)) = Some u"

definition newMessage :: "send_request \<Rightarrow> message" where
  "newMessage rq =
     \<lparr> mid = sr_newId rq,
       senderId = sr_sender rq,
       receiverId = sr_receiver rq,
       msg_text = (case sr_text rq of None \<Rightarrow> [] | Some t \<Rightarrow> trim t),
       msg_image = secure_url (sr_image rq),
       video = secure_url (sr_video rq),
       audio = secure_url (sr_audio rq),
       replyTo = sr_replyTo rq,
       edited = False,
       editedAt = None,
       deletedForMe = [],
       deletedForEveryone = False,
       reactions = [],
       readBy = [],
       deliveredTo = [(sr_sender rq, sr_now rq)],
       createdAt = sr_now rq \<rparr>"

definition sendMessage :: "world \<Rightarrow> send_request \<Rightarrow> (failure + message) \<times> world \<times> event list" where
  "sendMessage w rq =
     (if \<not> truthy (map_option trim (sr_text rq)) \<and> sr_image rq = None
           \<and> sr_video rq = None \<and> sr_audio rq = None
      then (Inl (Failure 400 ''Text, image, video, or audio is required.''), w, [])
      else if sr_sender rq = sr_receiver rq
      then (Inl (Failure 400 ''Cannot send messages to yourself.''), w, [])
      else if \<not> list_ex (\<lambda>u. uid u = sr_receiver rq) (users w)
      then (Inl (Failure 404 ''Receiver not found.''), w, [])
      else if sr_image rq = Some UploadFails
      then (Inl (Failure 500 ''Failed to upload image''), w, [])
      else if sr_video rq = Some UploadFails
      then (Inl (Failure 500 ''Failed to upload video''), w, [])
      else if sr_audio rq = Some UploadFails
      then (Inl (Failure 500 ''Failed to upload audio''), w, [])
      else if \<not> validates (newMessage rq) \<or> list_ex (\<lambda>m. mid m = sr_newId rq) (messages w)
      then (Inl internal_error, w, [])
      else (Inr (newMessage rq),
            w\<lparr>messages := messages w @ [newMessage rq]\<rparr>,
            emit_if_online w (sr_receiver rq) ''newMessage'' (PMessage (newMessage rq))))"

subsection \<open>getMessagesByUserId\<close>

definition in_conversation :: "user_id \<Rightarrow> user_id \<Rightarrow> message \<Rightarrow> bool" where
  "in_conversation myId userToChatId m =
     ((senderId m = myId \<and> receiverId m = userToChatId)
      \<or> (senderId m = userToChatId \<and> receiverId m = myId))"

definition undelivered :: "user_id \<Rightarrow> message \<Rightarrow> bool" where
  "undelivered myId m =
     (receiverId m = myId \<and> \<not> list_ex (\<lambda>d. fst d = myId) (deliveredTo m))"

definition pushDelivered :: "user_id \<Rightarrow> timestamp \<Rightarrow> message \<Rightarrow> message" where
  "pushDelivered myId now m = m\<lparr>deliveredTo := deliveredTo m @ [(myId, now)]\<rparr>"

text \<open>The loop over \<^verbatim>\<open>unreadMessages\<close>: push, save, tell the sender.\<close>

fun deliver_each :: "user_id \<Rightarrow> timestamp \<Rightarrow> message list \<Rightarrow> world \<Rightarrow> world \<times> event list" where
  "deliver_each myId now [] w = (w, [])"
| "deliver_each myId now (msg # rest) w =
     (let msg' = pushDelivered myId now msg;
          w' = save msg' w;
          ev = emit_if_online w' (senderId msg') ''messageDelivered''
                 (PObject [(''messageId'', mid msg'), (''userId'', myId)]);
          (w'', evs) = deliver_each myId now rest w'
      in (w'', ev @ evs))"

text \<open>
  The documents of \<^verbatim>\<open>unreadMessages\<close> are the very objects of \<^verbatim>\<open>messages\<close>, so the response
  shows the entries the loop pushed.
\<close>

definition getMessagesByUserId ::
    "world \<Rightarrow> user_id \<Rightarrow> user_id \<Rightarrow> timestamp \<Rightarrow> (failure + message list) \<times> world \<times> event list" where
  "getMessagesByUserId w myId userToChatId now =
     (let allMessages = sort_key createdAt (filter (in_conversation myId userToChatId) (messages w));
          msgs = filter (\<lambda>m. \<not> list_ex (\<lambda>d. d = myId) (deletedForMe m)) allMessages;
          unreadMessages = filter (undelivered myId) msgs;
          (w', evs) = deliver_each myId now unreadMessages w
      in (Inr (map (\<lambda>m. if undelivered myId m then pushDelivered myId now m else m) msgs), w', evs))"

subsection \<open>markMessageAsRead\<close>

definition markMessageAsRead ::
    "world \<Rightarrow> message_id \<Rightarrow> user_id \<Rightarrow> timestamp \<Rightarrow> (failure + string) \<times> world \<times> event list" where
  "markMessageAsRead w messageId userId now =
     (case findById w messageId of
        None \<Rightarrow> (Inl not_found, w, [])
      | Some m \<Rightarrow>
          if list_ex (\<lambda>r. fst r = userId) (readBy m)
          then (Inr ''Message marked as read'', w, [])
          else (let m' = m\<lparr>readBy := readBy m @ [(userId, now)]\<rparr>
                in (Inr ''Message marked as read'', save m' w,
                    emit_if_online w (senderId m') ''messageRead''
                      (PObject [(''messageId'', mid m'), (''userId'', userId)]))))"

subsection \<open>addReaction and removeReaction\<close>

definition addReaction ::
    "world \<Rightarrow> message_id \<Rightarrow> string option \<Rightarrow> user_id \<Rightarrow> (failure + message) \<times> world \<times> event list" where
  "addReaction w messageId emoji userId =
     (if \<not> truthy emoji then (Inl (Failure 400 ''Emoji is required''), w, [])
      else case findById w messageId of
        None \<Rightarrow> (Inl not_found, w, [])
      | Some m \<Rightarrow>
          (let m' = m\<lparr>reactions := filter (\<lambda>r. fst r \<noteq> userId) (reactions m) @ [(userId, the emoji)]\<rparr>
           in (Inr m', save m' w,
               emit_if_online w (receiverId m') ''reactionAdded'' (PMessage m')
               @ emit_if_online w (senderId m') ''reactionAdded'' (PMessage m'))))"

definition removeReaction ::
    "world \<Rightarrow> message_id \<Rightarrow> user_id \<Rightarrow> (failure + message) \<times> world \<times> event list" where
  "removeReaction w messageId userId =
     (case findById w messageId of
        None \<Rightarrow> (Inl not_found, w, [])
      | Some m \<Rightarrow>
          (let m' = m\<lparr>reactions := filter (\<lambda>r. fst r \<noteq> userId) (reactions m)\<rparr>
           in (Inr m', save m' w,
               emit_if_online w (receiverId m') ''reactionRemoved'' (PMessage m')
               @ emit_if_online w (senderId m') ''reactionRemoved'' (PMessage m'))))"

subsection \<open>editMessage\<close>

text \<open>
  Before it emits, the handler populates \<^verbatim>\<open>senderId\<close> and \<^verbatim>\<open>receiverId\<close> and then looks
  the sockets up with \<^verbatim>\<open>message.receiverId.toString()\<close> and
  \<^verbatim>\<open>message.senderId.toString()\<close>, the printed user documents.
\<close>

definition editMessage ::
    "world \<Rightarrow> message_id \<Rightarrow> string option \<Rightarrow> user_id \<Rightarrow> timestamp
       \<Rightarrow> (failure + message) \<times> world \<times> event list" where
  "editMessage w messageId txt userId now =
     (if \<not> truthy txt \<or> \<not> truthy (map_option trim txt)
      then (Inl (Failure 400 ''Message text is required''), w, [])
      else case findById w messageId of
        None \<Rightarrow> (Inl not_found, w, [])
      | Some m \<Rightarrow>
          if senderId m \<noteq> userId
          then (Inl (Failure 403 ''You can only edit your own messages''), w, [])
          else if deletedForEveryone m
          then (Inl (Failure 400 ''Cannot edit a deleted message''), w, [])
          else (let m' = m\<lparr>msg_text := trim (the txt), edited := True, editedAt := Some now\<rparr>
                in if \<not> validates m' then (Inl internal_error, w, [])
                   else (Inr m', save m' w,
                         emit_if_found w (OfDocument (receiverId m')) ''messageEdited'' (PMessage m')
                         @ emit_if_found w (OfDocument (senderId m')) ''messageEdited''
                             (PMessage m'))))"

subsection \<open>deleteMessage\<close>

text \<open>
  Deleting for everyone populates \<^verbatim>\<open>senderId\<close> and \<^verbatim>\<open>receiverId\<close> and then looks the
  sockets up with their \<^verbatim>\<open>toString()\<close>, as \<open>editMessage\<close> does; deleting for the caller
  looks the socket up with \<^verbatim>\<open>userId.toString()\<close>, the caller's identifier.
\<close>

definition deleteMessage ::
    "world \<Rightarrow> message_id \<Rightarrow> bool \<Rightarrow> user_id \<Rightarrow> (failure + message) \<times> world \<times> event list" where
  "deleteMessage w messageId deleteForEveryone userId =
     (case findById w messageId of
        None \<Rightarrow> (Inl not_found, w, [])
      | Some m \<Rightarrow>
          if deleteForEveryone
          then (if senderId m \<noteq> userId
                then (Inl (Failure 403 ''Only the sender can delete for everyone''), w, [])
                else (let m' = m\<lparr>msg_text := [], msg_image := Some [], video := Some [],
                                  audio := Some [], deletedForEveryone := True\<rparr>
                      in (Inr m', save m' w,
                          emit_if_found w (OfDocument (receiverId m')) ''messageDeleted''
                            (PMessage m')
                          @ emit_if_found w (OfDocument (senderId m')) ''messageDeleted''
                              (PMessage m'))))
          else (if list_ex (\<lambda>d. d = userId) (deletedForMe m)
                then (Inr m, w, emit_if_found w (OfId userId) ''messageDeletedForMe'' (PMessage m))
                else (let m' = m\<lparr>deletedForMe := deletedForMe m @ [userId]\<rparr>
                      in (Inr m', save m' w,
                          emit_if_found w (OfId userId) ''messageDeletedForMe''
                            (PMessage m')))))"

subsection \<open>getAllContacts and getChatPartners\<close>

definition is_chatbot :: "user \<Rightarrow> bool" where
  "is_chatbot u =
     (str_includes (toLowerCase (fullName u)) ''chatbot''
      \<or> str_includes (toLowerCase (fullName u)) ''chat bot'')"

text \<open>\<^verbatim>\<open>.select("-password")\<close>\<close>

definition select_no_password :: "user \<Rightarrow> user" where
  "select_no_password u = u\<lparr>password := None\<rparr>"

definition getAllContacts :: "world \<Rightarrow> user_id \<Rightarrow> user list" where
  "getAllContacts w loggedInUserId =
     (let allUsers = map select_no_password (filter (\<lambda>u. uid u \<noteq> loggedInUserId) (users w))
      in filter (\<lambda>u. \<not> is_chatbot u) allUsers)"

text \<open>
  The partner identifiers pass through a \<^verbatim>\<open>Set\<close> and are used for membership
  (\<^verbatim>\<open>$in\<close>) only, so which duplicate survives does not matter.
\<close>

definition getChatPartners :: "world \<Rightarrow> user_id \<Rightarrow> user list" where
  "getChatPartners w loggedInUserId =
     (let msgs = filter (\<lambda>m. senderId m = loggedInUserId \<or> receiverId m = loggedInUserId) (messages w);
          chatPartnerIds = remdups (map (\<lambda>m. if senderId m = loggedInUserId then receiverId m
                                               else senderId m) msgs);
          allChatPartners = map select_no_password
                              (filter (\<lambda>u. uid u \<in> set chatPartnerIds) (users w))
      in filter (\<lambda>u. \<not> is_chatbot u) allChatPartners)"

section \<open>Overlapping requests\<close>

text \<open>
  The server runs one handler at a time but switches handlers at every \<^verbatim>\<open>await\<close>. Between
  \<^verbatim>\<open>await Message.findById(...)\<close> and \<^verbatim>\<open>await message.save()\<close> other requests can run, and
  no handler locks the document or makes its write conditional. A handler that loads and
  saves therefore takes two steps: the load, which is \<open>findById\<close>, and the rest, which
  checks the loaded document \<open>doc\<close> and writes to the store as it is by then.

  \<^verbatim>\<open>save()\<close> writes what the handler changed on its copy: a \<^verbatim>\<open>push\<close> appends the
  entry to the stored array, an assignment that changed a field sets that field, and an
  assignment of the value the field had when loaded writes nothing.
\<close>

fun updateById :: "message_id \<Rightarrow> (message \<Rightarrow> message) \<Rightarrow> message list \<Rightarrow> message list" where
  "updateById i f [] = []"
| "updateById i f (x # xs) = (if mid x = i then f x # xs else x # updateById i f xs)"

definition assigned :: "'a \<Rightarrow> 'a \<Rightarrow> 'a \<Rightarrow> 'a" where
  "assigned loaded new stored = (if new = loaded then stored else new)"

text \<open>\<open>markMessageAsRead\<close> from the check \<^verbatim>\<open>alreadyRead\<close> on.\<close>

definition markMessageAsRead_save ::
    "world \<Rightarrow> message \<Rightarrow> user_id \<Rightarrow> timestamp \<Rightarrow> (failure + string) \<times> world \<times> event list" where
  "markMessageAsRead_save w doc userId now =
     (if list_ex (\<lambda>r. fst r = userId) (readBy doc)
      then (Inr ''Message marked as read'', w, [])
      else (Inr ''Message marked as read'',
            w\<lparr>messages := updateById (mid doc)
                             (\<lambda>s. s\<lparr>readBy := readBy s @ [(userId, now)]\<rparr>) (messages w)\<rparr>,
            emit_if_online w (senderId doc) ''messageRead''
              (PObject [(''messageId'', mid doc), (''userId'', userId)])))"

text \<open>One round of the loop of \<open>getMessagesByUserId\<close> over the messages it loaded.\<close>

definition deliver_one :: "world \<Rightarrow> message \<Rightarrow> user_id \<Rightarrow> timestamp \<Rightarrow> world \<times> event list" where
  "deliver_one w doc myId now =
     (w\<lparr>messages := updateById (mid doc)
                      (\<lambda>s. s\<lparr>deliveredTo := deliveredTo s @ [(myId, now)]\<rparr>) (messages w)\<rparr>,
      emit_if_online w (senderId doc) ''messageDelivered''
        (PObject [(''messageId'', mid doc), (''userId'', myId)]))"

text \<open>\<open>editMessage\<close> from the sender check on.\<close>

definition editMessage_save ::
    "world \<Rightarrow> message \<Rightarrow> string option \<Rightarrow> user_id \<Rightarrow> timestamp
       \<Rightarrow> (failure + message) \<times> world \<times> event list" where
  "editMessage_save w doc txt userId now =
     (if senderId doc \<noteq> userId
      then (Inl (Failure 403 ''You can only edit your own messages''), w, [])
      else if deletedForEveryone doc
      then (Inl (Failure 400 ''Cannot edit a deleted message''), w, [])
      else (let m' = doc\<lparr>msg_text := trim (the txt), edited := True, editedAt := Some now\<rparr>
            in if \<not> validates m' then (Inl internal_error, w, [])
               else (Inr m',
                     w\<lparr>messages := updateById (mid doc)
                        (\<lambda>s. s\<lparr>msg_text := assigned (msg_text doc) (trim (the txt)) (msg_text s),
                                edited := assigned (edited doc) True (edited s),
                                editedAt := assigned (editedAt doc) (Some now) (editedAt s)\<rparr>)
                        (messages w)\<rparr>,
                     emit_if_found w (OfDocument (receiverId m')) ''messageEdited'' (PMessage m')
                     @ emit_if_found w (OfDocument (senderId m')) ''messageEdited''
                         (PMessage m'))))"

text \<open>\<open>deleteMessage\<close> from \<^verbatim>\<open>isSender\<close> on.\<close>

definition deleteMessage_save ::
    "world \<Rightarrow> message \<Rightarrow> bool \<Rightarrow> user_id \<Rightarrow> (failure + message) \<times> world \<times> event list" where
  "deleteMessage_save w doc deleteForEveryone userId =
     (if deleteForEveryone
      then (if senderId doc \<noteq> userId
            then (Inl (Failure 403 ''Only the sender can delete for everyone''), w, [])
            else (let m' = doc\<lparr>msg_text := [], msg_image := Some [], video := Some [],
                                audio := Some [], deletedForEveryone := True\<rparr>
                  in (Inr m',
                      w\<lparr>messages := updateById (mid doc)
                         (\<lambda>s. s\<lparr>msg_text := assigned (msg_text doc) [] (msg_text s),
                                 msg_image := assigned (msg_image doc) (Some []) (msg_image s),
                                 video := assigned (video doc) (Some []) (video s),
                                 audio := assigned (audio doc) (Some []) (audio s),
                                 deletedForEveryone :=
                                   assigned (deletedForEveryone doc) True (deletedForEveryone s)\<rparr>)
                         (messages w)\<rparr>,
                      emit_if_found w (OfDocument (receiverId m')) ''messageDeleted''
                        (PMessage m')
                      @ emit_if_found w (OfDocument (senderId m')) ''messageDeleted''
                          (PMessage m'))))
      else (if list_ex (\<lambda>d. d = userId) (deletedForMe doc)
            then (Inr doc, w, emit_if_found w (OfId userId) ''messageDeletedForMe'' (PMessage doc))
            else (let m' = doc\<lparr>deletedForMe := deletedForMe doc @ [userId]\<rparr>
                  in (Inr m',
                      w\<lparr>messages := updateById (mid doc)
                         (\<lambda>s. s\<lparr>deletedForMe := deletedForMe s @ [userId]\<rparr>) (messages w)\<rparr>,
                      emit_if_found w (OfId userId) ''messageDeletedForMe'' (PMessage m')))))"

section \<open>Sequences of requests\<close>

text \<open>
  A request is served whole, from its load to its response, or, for the handlers above, by
  its second step alone, which carries the document its first step loaded. A run takes
  the steps in the order in which the server performs them: requests that do not overlap
  are runs of whole requests, and a request that others overlap appears as its second
  step, placed where its save happens. The reaction handlers and \<open>sendMessage\<close> are
  served whole.
\<close>

datatype request =
    RSend send_request
  | RFetch user_id user_id timestamp
  | RMarkRead message_id user_id timestamp
  | RAddReaction message_id "string option" user_id
  | RRemoveReaction message_id user_id
  | REdit message_id "string option" user_id timestamp
  | RDelete message_id bool user_id
  | RConnect user_id socket_id
  | RDisconnect user_id socket_id
  | RTyping user_id string user_id timestamp
  | RStopTyping user_id user_id
  | RMarkReadSave message user_id timestamp
  | RDeliverOne message user_id timestamp
  | REditSave message "string option" user_id timestamp
  | RDeleteSave message bool user_id

fun whole :: "request \<Rightarrow> bool" where
  "whole (RMarkReadSave doc u now) = False"
| "whole (RDeliverOne doc u now) = False"
| "whole (REditSave doc t u now) = False"
| "whole (RDeleteSave doc b u) = False"
| "whole rq = True"

fun step :: "world \<Rightarrow> request \<Rightarrow> world" where
  "step w (RSend rq) = fst (snd (sendMessage w rq))"
| "step w (RFetch myId other now) = fst (snd (getMessagesByUserId w myId other now))"
| "step w (RMarkRead i u now) = fst (snd (markMessageAsRead w i u now))"
| "step w (RAddReaction i e u) = fst (snd (addReaction w i e u))"
| "step w (RRemoveReaction i u) = fst (snd (removeReaction w i u))"
| "step w (REdit i t u now) = fst (snd (editMessage w i t u now))"
| "step w (RDelete i b u) = fst (snd (deleteMessage w i b u))"
| "step w (RConnect u s) = fst (connection w u s)"
| "step w (RDisconnect u s) = fst (disconnect w u s)"
| "step w (RTyping u n r now) = fst (typing w u n r now)"
| "step w (RStopTyping u r) = fst (stopTyping w u r)"
| "step w (RMarkReadSave doc u now) = fst (snd (markMessageAsRead_save w doc u now))"
| "step w (RDeliverOne doc u now) = fst (deliver_one w doc u now)"
| "step w (REditSave doc t u now) = fst (snd (editMessage_save w doc t u now))"
| "step w (RDeleteSave doc b u) = fst (snd (deleteMessage_save w doc b u))"

definition run :: "world \<Rightarrow> request list \<Rightarrow> world" where
  "run w rqs = foldl step w rqs"

section \<open>Names that contain a pattern\<close>

text \<open>
  The reading of "the name contains \<open>pat\<close>, case-insensitively" that the listings are
  compared with. It is stated with the alphabet written out, not with \<open>toLowerCase\<close>: two
  characters are the same letter when they are equal or are the upper-case and the
  lower-case form of one of the 26 letters, and a name contains \<open>pat\<close> when some part of it
  agrees with \<open>pat\<close> character by character in that sense.
\<close>

definition upper_letters :: string where
  "upper_letters = ''ABCDEFGHIJKLMNOPQRSTUVWXYZ''"

definition lower_letters :: string where
  "lower_letters = ''abcdefghijklmnopqrstuvwxyz''"

definition same_letter :: "char \<Rightarrow> char \<Rightarrow> bool" where
  "same_letter c d =
     (c = d \<or> (c, d) \<in> set (zip upper_letters lower_letters)
            \<or> (d, c) \<in> set (zip upper_letters lower_letters))"

definition contains_ignoring_case :: "string \<Rightarrow> string \<Rightarrow> bool" where
  "contains_ignoring_case s pat =
     (\<exists>p v q. s = p @ v @ q \<and> list_all2 same_letter v pat)"

section \<open>Properties of the store\<close>

text \<open>Identifiers are unique in the store, as the primary key \<^verbatim>\<open>_id\<close> guarantees.\<close>

definition wf_store :: "world \<Rightarrow> bool" where
  "wf_store w = distinct (map mid (messages w))"

text \<open>
  A message deleted for everyone: the flag is set, the text is empty and each media field
  holds the empty string, which is no URL (\<open>truthy (Some []) = False\<close>).
\<close>

definition tombstone :: "message \<Rightarrow> bool" where
  "tombstone m = (deletedForEveryone m \<and> msg_text m = [] \<and> msg_image m = Some []
                  \<and> video m = Some [] \<and> audio m = Some [])"

text \<open>
  The messages \<open>getMessagesByUserId\<close> marks as delivered: those of the conversation that
  the caller has not hidden and has received but is not yet recorded for.
\<close>

definition to_deliver :: "user_id \<Rightarrow> user_id \<Rightarrow> message \<Rightarrow> bool" where
  "to_deliver a b m =
     (in_conversation a b m \<and> \<not> list_ex (\<lambda>d. d = a) (deletedForMe m) \<and> undelivered a m)"

section \<open>A concrete deployment\<close>

text \<open>Three users, one of them a chat bot, used to run the handlers on concrete requests.\<close>

definition alice :: user where
  "alice = \<lparr>uid = 1, fullName = ''Alice'', email = ''alice@example.org'', profilePic = [],
            password = Some ''pw1''\<rparr>"

definition bot :: user where
  "bot = \<lparr>uid = 2, fullName = ''Support CHATBOT'', email = ''bot@example.org'', profilePic = [],
          password = Some ''pw2''\<rparr>"

definition bob :: user where
  "bob = \<lparr>uid = 3, fullName = ''Bob'', email = ''bob@example.org'', profilePic = [],
          password = Some ''pw3''\<rparr>"

definition world0 :: world where
  "world0 = \<lparr>users = [alice, bot, bob], messages = [], userSocketMap = [], typingUsers = []\<rparr>"

text \<open>Alice sends \<open>hello\<close> to Bob at time 5; the store gives the message the identifier 7.\<close>

definition hello :: send_request where
  "hello = \<lparr>sr_sender = 1, sr_receiver = 3, sr_text = Some '' hello '', sr_replyTo = None,
             sr_image = None, sr_video = None, sr_audio = None, sr_newId = 7, sr_now = 5\<rparr>"

definition hello_msg :: message where
  "hello_msg = \<lparr>mid = 7, senderId = 1, receiverId = 3, msg_text = ''hello'', msg_image = None,
                 video = None, audio = None, replyTo = None, edited = False, editedAt = None,
                 deletedForMe = [], deletedForEveryone = False, reactions = [], readBy = [],
                 deliveredTo = [(1, 5)], createdAt = 5\<rparr>"

text \<open>Alice is online and has sent the message.\<close>

definition world_sent :: world where
  "world_sent = \<lparr>users = [alice, bot, bob], messages = [hello_msg],
                  userSocketMap = [(1, ''sock-a'')], typingUsers = []\<rparr>"

text \<open>The same, after Alice deleted the message for everyone.\<close>

definition tombstone_msg :: message where
  "tombstone_msg = hello_msg\<lparr>msg_text := [], msg_image := Some [], video := Some [],
                             audio := Some [], deletedForEveryone := True\<rparr>"

definition world_deleted :: world where
  "world_deleted = \<lparr>users = [alice, bot, bob], messages = [tombstone_msg],
                     userSocketMap = [(1, ''sock-a'')], typingUsers = []\<rparr>"

text \<open>Alice connected twice, first with socket \<open>old\<close>, then with socket \<open>new\<close>; Bob is online.\<close>

definition world_reconnected :: world where
  "world_reconnected = \<lparr>users = [alice, bot, bob], messages = [],
                         userSocketMap = [(3, ''sock-b''), (1, ''new'')], typingUsers = []\<rparr>"

text \<open>The bot has written to Alice, and Alice to Bob.\<close>

definition bot_msg :: message where
  "bot_msg = \<lparr>mid = 8, senderId = 2, receiverId = 1, msg_text = ''How can I help?'',
               msg_image = None, video = None, audio = None, replyTo = None, edited = False,
               editedAt = None, deletedForMe = [], deletedForEveryone = False, reactions = [],
               readBy = [], deliveredTo = [(2, 6)], createdAt = 6\<rparr>"

definition world_chats :: world where
  "world_chats = \<lparr>users = [alice, bot, bob], messages = [hello_msg, bot_msg],
                   userSocketMap = [], typingUsers = []\<rparr>"

text \<open>Requests after the deletion: a reaction, an edit and a read mark.\<close>

definition delete_example :: "request list" where
  "delete_example = [RAddReaction 7 (Some ''+1'') 3, REdit 7 (Some ''again'') 1 11,
                     RMarkRead 7 3 12]"

text \<open>
  Alice's edit of the message, saved at time 11 on top of the deleted message: the text is
  back, the flag and the cleared media fields stay.
\<close>

definition edited_tombstone_msg :: message where
  "edited_tombstone_msg = tombstone_msg\<lparr>msg_text := ''again'', edited := True,
                                        editedAt := Some 11\<rparr>"

text \<open>Bob marks the message as read and fetches the conversation, twice each.\<close>

definition receipts_example :: "request list" where
  "receipts_example = [RMarkRead 7 3 9, RFetch 3 1 10, RMarkRead 7 3 11, RFetch 3 1 12]"

definition read_msg :: message where
  "read_msg = hello_msg\<lparr>readBy := [(3, 9)], deliveredTo := [(1, 5), (3, 10)]\<rparr>"

definition world_receipts :: world where
  "world_receipts = \<lparr>users = [alice, bot, bob], messages = [read_msg],
                      userSocketMap = [(1, ''sock-a'')], typingUsers = []\<rparr>"

section \<open>Presence table: disconnecting\<close>

lemma getReceiverSocketId_disconnect:
  "getReceiverSocketId (fst (disconnect w u sid)) v =
     (if v = u then None else getReceiverSocketId w v)"
  by (simp add: getReceiverSocketId_def disconnect_def Let_def delete_conv')

text \<open>
  Claim C2 says that a disconnect removes the entry of its user only when the stored
  socket is the one that disconnects. The handler does not compare: in
  \<open>world_reconnected\<close> Alice's entry is the socket \<open>new\<close>, and the disconnect of her earlier
  socket \<open>old\<close> removes it.
\<close>

theorem stale_disconnect_evicts_newer:
  "world_reconnected = fst (connection (fst (connection
       (world0\<lparr>userSocketMap := [(3, ''sock-b'')]\<rparr>) 1 ''old'')) 1 ''new'')
   \<and> getReceiverSocketId world_reconnected 1 = Some ''new''
   \<and> getReceiverSocketId (fst (disconnect world_reconnected 1 ''old'')) 1 = None"
  by (simp add: world_reconnected_def world0_def connection_def disconnect_def
      getReceiverSocketId_def Let_def)

text \<open>
  Claim C2, amended: the disconnect handler of a socket of user \<open>u\<close> removes the entry of
  \<open>u\<close> from the presence table whichever socket is stored there, and leaves the entry of
  every other user as it was.
\<close>

theorem disconnect_removes_entry:
  "getReceiverSocketId (fst (disconnect w u sid)) u = None
   \<and> (\<forall>v. v \<noteq> u \<longrightarrow>
         getReceiverSocketId (fst (disconnect w u sid)) v = getReceiverSocketId w v)"
  by (simp add: getReceiverSocketId_disconnect)

theorem disconnect_removes_entry_witness:
  "getReceiverSocketId (fst (disconnect world_reconnected 1 ''old'')) 1 = None
   \<and> getReceiverSocketId (fst (disconnect world_reconnected 1 ''old'')) 3 = Some ''sock-b''"
proof -
  have ne: "(3::nat) \<noteq> 1" by simp
  have bob: "getReceiverSocketId world_reconnected 3 = Some ''sock-b''"
    by (simp add: getReceiverSocketId_def world_reconnected_def)
  from disconnect_removes_entry [of world_reconnected 1 "''old''"] ne bob
  show ?thesis by simp
qed

section \<open>Store lemmas\<close>

lemma find_updateOne:
  "find (\<lambda>x. mid x = i) (updateOne m' xs) =
     (if mid m' = i then map_option (\<lambda>_. m') (find (\<lambda>x. mid x = i) xs)
      else find (\<lambda>x. mid x = i) xs)"
  by (induction xs) auto

lemma findById_D: "findById w i = Some m \<Longrightarrow> mid m = i \<and> m \<in> set (messages w)"
  by (auto simp: findById_def find_Some_iff)

lemma findById_save:
  "findById (save m' w) i =
     (if mid m' = i then map_option (\<lambda>_. m') (findById w i) else findById w i)"
  by (simp add: findById_def save_def find_updateOne)

lemma emit_if_online_cases:
  "emit_if_online w u n p =
     (case getReceiverSocketId w u of None \<Rightarrow> []
      | Some s \<Rightarrow> if s = [] then [] else [Emit (ToSocket s) n p])"
  by (simp add: emit_if_online_def split: option.splits)

lemma set_updateById: "set (updateById i f xs) \<subseteq> set xs \<union> f ` set xs"
  by (induction xs) auto

lemma map_mid_updateById:
  assumes "\<And>s. mid (f s) = mid s"
  shows "map mid (updateById i f xs) = map mid xs"
  by (induction xs) (simp_all add: assms)

lemma updateById_loaded:
  assumes "find (\<lambda>x. mid x = i) xs = Some m" and "mid (f m) = i"
  shows "updateById i f xs = updateOne (f m) xs"
  using assms by (induction xs) (auto split: if_splits)

lemma assigned_loaded [simp]: "assigned loaded new loaded = new"
  by (simp add: assigned_def)

text \<open>
  A handler that nothing interrupts is its load followed at once by its second step.
\<close>

lemma markMessageAsRead_steps:
  "markMessageAsRead w i u now =
     (case findById w i of None \<Rightarrow> (Inl not_found, w, [])
      | Some doc \<Rightarrow> markMessageAsRead_save w doc u now)"
proof (cases "findById w i")
  case None
  then show ?thesis by (simp add: markMessageAsRead_def)
next
  case (Some doc)
  then have f: "find (\<lambda>x. mid x = mid doc) (messages w) = Some doc"
    using findById_D [OF Some] by (simp add: findById_def)
  show ?thesis
    using Some
    by (simp add: markMessageAsRead_def markMessageAsRead_save_def Let_def save_def
        updateById_loaded [OF f])
qed

lemma editMessage_steps:
  "editMessage w i t u now =
     (if \<not> truthy t \<or> \<not> truthy (map_option trim t)
      then (Inl (Failure 400 ''Message text is required''), w, [])
      else case findById w i of None \<Rightarrow> (Inl not_found, w, [])
           | Some doc \<Rightarrow> editMessage_save w doc t u now)"
proof (cases "findById w i")
  case None
  then show ?thesis by (simp add: editMessage_def)
next
  case (Some doc)
  then have f: "find (\<lambda>x. mid x = mid doc) (messages w) = Some doc"
    using findById_D [OF Some] by (simp add: findById_def)
  show ?thesis
    using Some
    by (simp add: editMessage_def editMessage_save_def Let_def save_def
        updateById_loaded [OF f])
qed

lemma deleteMessage_steps:
  "deleteMessage w i b u =
     (case findById w i of None \<Rightarrow> (Inl not_found, w, [])
      | Some doc \<Rightarrow> deleteMessage_save w doc b u)"
proof (cases "findById w i")
  case None
  then show ?thesis by (simp add: deleteMessage_def)
next
  case (Some doc)
  then have f: "find (\<lambda>x. mid x = mid doc) (messages w) = Some doc"
    using findById_D [OF Some] by (simp add: findById_def)
  show ?thesis
    using Some
    by (simp add: deleteMessage_def deleteMessage_save_def Let_def save_def
        updateById_loaded [OF f])
qed

lemma deliver_one_loaded:
  assumes "findById w (mid doc) = Some doc"
  shows "deliver_one w doc a now
           = (save (pushDelivered a now doc) w,
              emit_if_online w (senderId doc) ''messageDelivered''
                (PObject [(''messageId'', mid doc), (''userId'', a)]))"
proof -
  from assms have f: "find (\<lambda>x. mid x = mid doc) (messages w) = Some doc"
    by (simp add: findById_def)
  show ?thesis
    by (simp add: deliver_one_def save_def pushDelivered_def updateById_loaded [OF f])
qed

section \<open>markMessageAsRead\<close>

text \<open>
  Claim C9: \<open>markMessageAsRead\<close> checks no participation. For a stored message and any user
  \<open>u\<close>, whatever the sender and receiver of the message are, the answer is 200; when
  \<open>u\<close> is not in \<open>readBy\<close> yet, the stored message gains the entry \<open>(u, now)\<close> at the
  end of \<open>readBy\<close> and the read receipt goes to the socket registered for the sender, if
  there is one; when \<open>u\<close> is in \<open>readBy\<close>, nothing changes and nothing is emitted.
\<close>

theorem markRead_any_user:
  assumes "findById w i = Some m"
  shows "fst (markMessageAsRead w i u now) = Inr ''Message marked as read''
    \<and> (if u \<in> fst ` set (readBy m)
       then snd (markMessageAsRead w i u now) = (w, [])
       else findById (fst (snd (markMessageAsRead w i u now))) i
              = Some (m\<lparr>readBy := readBy m @ [(u, now)]\<rparr>)
          \<and> snd (snd (markMessageAsRead w i u now))
              = (case getReceiverSocketId w (senderId m) of
                   None \<Rightarrow> []
                 | Some s \<Rightarrow> if s = [] then []
                     else [Emit (ToSocket s) ''messageRead''
                             (PObject [(''messageId'', i), (''userId'', u)])]))"
proof -
  have i: "mid m = i" using assms by (simp add: findById_D)
  have ex: "list_ex (\<lambda>r. fst r = u) (readBy m) \<longleftrightarrow> u \<in> fst ` set (readBy m)"
    by (auto simp: list_ex_iff)
  show ?thesis
    using assms i ex
    by (simp add: markMessageAsRead_def Let_def findById_save emit_if_online_cases
        split: option.splits)
qed

theorem markRead_any_user_witness:
  "findById world_sent 7 = Some hello_msg
   \<and> senderId hello_msg \<noteq> 2 \<and> receiverId hello_msg \<noteq> 2
   \<and> markMessageAsRead world_sent 7 2 9 =
       (Inr ''Message marked as read'',
        world_sent\<lparr>messages := [hello_msg\<lparr>readBy := [(2, 9)]\<rparr>]\<rparr>,
        [Emit (ToSocket ''sock-a'') ''messageRead'' (PObject [(''messageId'', 7), (''userId'', 2)])])"
proof -
  have f: "findById world_sent 7 = Some hello_msg"
    by (simp add: findById_def world_sent_def hello_msg_def)
  from markRead_any_user [OF f, of 2 9] f show ?thesis
    by (simp add: markMessageAsRead_def Let_def save_def emit_if_online_def
        getReceiverSocketId_def world_sent_def hello_msg_def)
qed

section \<open>sendMessage\<close>

lemma find_append_if:
  "find P (xs @ ys) = (case find P xs of None \<Rightarrow> find P ys | Some x \<Rightarrow> Some x)"
  by (induction xs) auto

lemma sendMessage_success:
  assumes "sendMessage w rq = (Inr m, w', evs)"
  shows "m = newMessage rq"
    and "w' = w\<lparr>messages := messages w @ [newMessage rq]\<rparr>"
    and "evs = emit_if_online w (sr_receiver rq) ''newMessage'' (PMessage (newMessage rq))"
    and "sr_sender rq \<noteq> sr_receiver rq"
    and "\<not> list_ex (\<lambda>x. mid x = sr_newId rq) (messages w)"
  using assms by (auto simp: sendMessage_def split: if_splits)

lemma sendMessage_registry:
  "fst (sendMessage (w\<lparr>userSocketMap := reg\<rparr>) rq) = fst (sendMessage w rq)
   \<and> messages (fst (snd (sendMessage (w\<lparr>userSocketMap := reg\<rparr>) rq)))
       = messages (fst (snd (sendMessage w rq)))"
  by (simp add: sendMessage_def)

text \<open>
  Claim C3: after a successful \<open>sendMessage\<close> every emitted event is the \<open>newMessage\<close>
  event addressed to the socket registered for the receiver; no event is addressed to the
  sender's socket (the sender is not the receiver, and their sockets differ); with a
  registered receiver the event is emitted, with no entry for the receiver nothing is
  emitted; the response and the stored message do not depend on the presence table.
\<close>

theorem newMessage_to_receiver_only:
  assumes "sendMessage w rq = (Inr m, w', evs)"
  shows "(\<forall>e \<in> set evs. \<exists>s. getReceiverSocketId w (sr_receiver rq) = Some s
            \<and> e = Emit (ToSocket s) ''newMessage'' (PMessage m))
    \<and> (\<forall>s. getReceiverSocketId w (sr_sender rq) = Some s
            \<and> getReceiverSocketId w (sr_receiver rq) \<noteq> Some s
          \<longrightarrow> (\<forall>e \<in> set evs. event_target e \<noteq> ToSocket s))
    \<and> (\<forall>s. getReceiverSocketId w (sr_receiver rq) = Some s \<and> s \<noteq> []
          \<longrightarrow> evs = [Emit (ToSocket s) ''newMessage'' (PMessage m)])
    \<and> (getReceiverSocketId w (sr_receiver rq) = None \<longrightarrow> evs = [])
    \<and> sr_sender rq \<noteq> sr_receiver rq
    \<and> messages w' = messages w @ [m]
    \<and> (\<forall>reg. fst (sendMessage (w\<lparr>userSocketMap := reg\<rparr>) rq) = Inr m
          \<and> messages (fst (snd (sendMessage (w\<lparr>userSocketMap := reg\<rparr>) rq))) = messages w')"
proof -
  note s = sendMessage_success [OF assms]
  have ev: "evs = (case getReceiverSocketId w (sr_receiver rq) of None \<Rightarrow> []
      | Some s \<Rightarrow> if s = [] then [] else [Emit (ToSocket s) ''newMessage'' (PMessage m)])"
    using s(3) unfolding s(1) by (simp add: emit_if_online_cases)
  have a: "\<forall>e \<in> set evs. \<exists>s. getReceiverSocketId w (sr_receiver rq) = Some s
            \<and> e = Emit (ToSocket s) ''newMessage'' (PMessage m)"
    using ev by (auto split: option.splits if_splits)
  have b: "\<forall>s. getReceiverSocketId w (sr_sender rq) = Some s
            \<and> getReceiverSocketId w (sr_receiver rq) \<noteq> Some s
          \<longrightarrow> (\<forall>e \<in> set evs. event_target e \<noteq> ToSocket s)"
    using a by fastforce
  have c: "\<forall>s. getReceiverSocketId w (sr_receiver rq) = Some s \<and> s \<noteq> []
          \<longrightarrow> evs = [Emit (ToSocket s) ''newMessage'' (PMessage m)]"
    using ev by simp
  have d: "getReceiverSocketId w (sr_receiver rq) = None \<longrightarrow> evs = []"
    using ev by simp
  have e: "messages w' = messages w @ [m]"
    using s(1,2) by simp
  have f: "\<forall>reg. fst (sendMessage (w\<lparr>userSocketMap := reg\<rparr>) rq) = Inr m
          \<and> messages (fst (snd (sendMessage (w\<lparr>userSocketMap := reg\<rparr>) rq))) = messages w'"
    using assms by (simp add: sendMessage_registry)
  from a b c d e f s(4) show ?thesis by blast
qed

lemma sendMessage_hello:
  "sendMessage (world0\<lparr>userSocketMap := [(1, ''sock-a''), (3, ''sock-b'')]\<rparr>) hello =
     (Inr hello_msg,
      world0\<lparr>messages := [hello_msg], userSocketMap := [(1, ''sock-a''), (3, ''sock-b'')]\<rparr>,
      [Emit (ToSocket ''sock-b'') ''newMessage'' (PMessage hello_msg)])"
  by (simp add: sendMessage_def newMessage_def hello_def hello_msg_def world0_def truthy_def
      trim_def is_js_space_def validates_def emit_if_online_def getReceiverSocketId_def
      alice_def bob_def bot_def)

lemma sendMessage_hello_offline:
  "sendMessage (world0\<lparr>userSocketMap := [(1, ''sock-a'')]\<rparr>) hello =
     (Inr hello_msg, world_sent, [])"
  by (simp add: sendMessage_def newMessage_def hello_def hello_msg_def world0_def truthy_def
      trim_def is_js_space_def validates_def emit_if_online_def getReceiverSocketId_def
      alice_def bob_def bot_def world_sent_def)

theorem newMessage_to_receiver_only_witness:
  "sendMessage (world0\<lparr>userSocketMap := [(1, ''sock-a''), (3, ''sock-b'')]\<rparr>) hello =
     (Inr hello_msg,
      world0\<lparr>messages := [hello_msg], userSocketMap := [(1, ''sock-a''), (3, ''sock-b'')]\<rparr>,
      [Emit (ToSocket ''sock-b'') ''newMessage'' (PMessage hello_msg)])
   \<and> event_target (Emit (ToSocket ''sock-b'') ''newMessage'' (PMessage hello_msg))
       \<noteq> ToSocket ''sock-a''
   \<and> sendMessage (world0\<lparr>userSocketMap := [(1, ''sock-a'')]\<rparr>) hello =
       (Inr hello_msg, world_sent, [])"
  using newMessage_to_receiver_only [OF sendMessage_hello] sendMessage_hello
    sendMessage_hello_offline
  by simp

text \<open>
  Claim C4: the message a successful \<open>sendMessage\<close> returns has the sender in
  \<open>deliveredTo\<close>, as its only entry, in the response, in the store and in the payload of every
  event emitted.
\<close>

theorem sender_delivered_at_creation:
  assumes "sendMessage w rq = (Inr m, w', evs)"
  shows "deliveredTo m = [(sr_sender rq, sr_now rq)]
    \<and> sr_sender rq \<in> fst ` set (deliveredTo m)
    \<and> senderId m = sr_sender rq
    \<and> findById w' (mid m) = Some m
    \<and> (\<forall>e \<in> set evs. event_payload e = PMessage m)"
proof -
  note s = sendMessage_success [OF assms]
  have "find (\<lambda>x. mid x = sr_newId rq) (messages w) = None"
    using s(5) by (simp add: find_None_iff list_ex_iff)
  then have "findById w' (mid m) = Some m"
    using s(1,2) by (simp add: findById_def newMessage_def find_append_if)
  moreover have "\<forall>e \<in> set evs. event_payload e = PMessage m"
    using s(1,3) by (auto simp: emit_if_online_cases split: option.splits if_splits)
  ultimately show ?thesis
    using s(1) by (simp add: newMessage_def)
qed

theorem sender_delivered_at_creation_witness:
  "sendMessage (world0\<lparr>userSocketMap := [(1, ''sock-a'')]\<rparr>) hello =
       (Inr hello_msg, world_sent, [])
   \<and> deliveredTo hello_msg = [(1, 5)]
   \<and> findById world_sent 7 = Some hello_msg"
  using sender_delivered_at_creation [OF sendMessage_hello_offline] sendMessage_hello_offline
  by (simp add: hello_def hello_msg_def)

section \<open>Messages deleted for everyone: edits and reactions\<close>

text \<open>
  Claim C1 says that edits and reactions on a message deleted for everyone are rejected,
  edits with a conflict. \<open>addReaction\<close> does not read \<open>deletedForEveryone\<close>: on the
  deleted message of \<open>world_deleted\<close> Bob's reaction is stored and answered with 200. An
  edit requested by Bob, who is not the sender, is refused with 403, not as a conflict.
\<close>

theorem reaction_accepted_on_deleted:
  "findById world_deleted 7 = Some tombstone_msg
   \<and> deletedForEveryone tombstone_msg
   \<and> addReaction world_deleted 7 (Some ''+1'') 3 =
       (Inr (tombstone_msg\<lparr>reactions := [(3, ''+1'')]\<rparr>),
        world_deleted\<lparr>messages := [tombstone_msg\<lparr>reactions := [(3, ''+1'')]\<rparr>]\<rparr>,
        [Emit (ToSocket ''sock-a'') ''reactionAdded''
           (PMessage (tombstone_msg\<lparr>reactions := [(3, ''+1'')]\<rparr>))])
   \<and> fst (editMessage world_deleted 7 (Some ''again'') 3 9)
       = Inl (Failure 403 ''You can only edit your own messages'')
   \<and> error_class_of (Failure 403 ''You can only edit your own messages'') = PermissionError"
  by (simp add: findById_def world_deleted_def tombstone_msg_def hello_msg_def addReaction_def
      truthy_def Let_def save_def emit_if_online_def getReceiverSocketId_def editMessage_def
      trim_def is_js_space_def)

text \<open>
  Claim C1, amended: on a stored message with \<open>deletedForEveryone\<close> every edit is refused
  and leaves the world as it was, with no event: as a validation error when the new text
  is missing or blank, else as a permission error when the editor is not the sender, else
  as the conflict. A reaction with a non-empty emoji is accepted on such a message: it
  replaces the user's reactions by the new one in the stored message.
\<close>

theorem edit_rejected_after_delete:
  assumes "findById w i = Some m" and "deletedForEveryone m"
  shows "(\<exists>f. editMessage w i t u now = (Inl f, w, [])
            \<and> error_class_of f =
                (if \<not> truthy t \<or> \<not> truthy (map_option trim t) then ValidationError
                 else if senderId m \<noteq> u then PermissionError
                 else ConflictError))
    \<and> (truthy e \<longrightarrow>
          (\<exists>m'. fst (addReaction w i e v) = Inr m'
             \<and> reactions m' = filter (\<lambda>r. fst r \<noteq> v) (reactions m) @ [(v, the e)]
             \<and> deletedForEveryone m'
             \<and> findById (fst (snd (addReaction w i e v))) i = Some m'))"
proof -
  have i: "mid m = i" using assms(1) by (simp add: findById_D)
  have "\<exists>f. editMessage w i t u now = (Inl f, w, [])
            \<and> error_class_of f =
                (if \<not> truthy t \<or> \<not> truthy (map_option trim t) then ValidationError
                 else if senderId m \<noteq> u then PermissionError
                 else ConflictError)"
    using assms by (simp add: editMessage_def)
  moreover have "truthy e \<longrightarrow>
          (\<exists>m'. fst (addReaction w i e v) = Inr m'
             \<and> reactions m' = filter (\<lambda>r. fst r \<noteq> v) (reactions m) @ [(v, the e)]
             \<and> deletedForEveryone m'
             \<and> findById (fst (snd (addReaction w i e v))) i = Some m')"
    using assms i by (simp add: addReaction_def Let_def findById_save)
  ultimately show ?thesis by blast
qed

theorem edit_rejected_after_delete_witness:
  "findById world_deleted 7 = Some tombstone_msg
   \<and> deletedForEveryone tombstone_msg
   \<and> editMessage world_deleted 7 (Some ''again'') 1 9
       = (Inl (Failure 400 ''Cannot edit a deleted message''), world_deleted, [])
   \<and> error_class_of (Failure 400 ''Cannot edit a deleted message'') = ConflictError
   \<and> fst (addReaction world_deleted 7 (Some ''+1'') 3)
       = Inr (tombstone_msg\<lparr>reactions := [(3, ''+1'')]\<rparr>)"
proof -
  have f: "findById world_deleted 7 = Some tombstone_msg"
    by (simp add: findById_def world_deleted_def tombstone_msg_def hello_msg_def)
  have d: "deletedForEveryone tombstone_msg"
    by (simp add: tombstone_msg_def)
  have t: "truthy (Some ''+1'')"
    by (simp add: truthy_def)
  from edit_rejected_after_delete [OF f d, of "Some ''again''" 1 9 "Some ''+1''" 3] f d t
  show ?thesis
    by (simp add: editMessage_def addReaction_def Let_def truthy_def trim_def is_js_space_def
        tombstone_msg_def hello_msg_def)
qed

section \<open>Delivered and read receipts\<close>

text \<open>
  Claim C7 says that a receipt carries the fields \<open>messageId\<close>, \<open>userId\<close> and
  \<open>timestamp\<close>. Both receipts are emitted with the two fields \<open>messageId\<close> and \<open>userId\<close>:
  here Bob marks Alice's message as read, and Bob fetches the conversation.
\<close>

theorem receipt_payload_has_no_timestamp:
  "snd (snd (markMessageAsRead world_sent 7 3 9)) =
     [Emit (ToSocket ''sock-a'') ''messageRead'' (PObject [(''messageId'', 7), (''userId'', 3)])]
   \<and> snd (snd (getMessagesByUserId world_sent 3 1 9)) =
     [Emit (ToSocket ''sock-a'') ''messageDelivered''
        (PObject [(''messageId'', 7), (''userId'', 3)])]
   \<and> payload_fields (PObject [(''messageId'', 7), (''userId'', 3)]) = [''messageId'', ''userId'']"
  by (simp add: markMessageAsRead_def getMessagesByUserId_def findById_def world_sent_def
      hello_msg_def Let_def save_def emit_if_online_def getReceiverSocketId_def
      in_conversation_def undelivered_def pushDelivered_def)

lemma userSocketMap_save [simp]: "userSocketMap (save m w) = userSocketMap w"
  by (simp add: save_def)

lemma getReceiverSocketId_save [simp]: "getReceiverSocketId (save m w) u = getReceiverSocketId w u"
  by (simp add: getReceiverSocketId_def)

lemma deliver_each_events:
  "e \<in> set (snd (deliver_each a now ms w)) \<Longrightarrow>
     \<exists>m s. m \<in> set ms \<and> getReceiverSocketId w (senderId m) = Some s
        \<and> e = Emit (ToSocket s) ''messageDelivered''
                (PObject [(''messageId'', mid m), (''userId'', a)])"
proof (induction ms arbitrary: w)
  case Nil
  then show ?case by simp
next
  case (Cons x xs)
  let ?w' = "save (pushDelivered a now x) w"
  from Cons.prems consider
      (hd) "e \<in> set (emit_if_online ?w' (senderId (pushDelivered a now x)) ''messageDelivered''
              (PObject [(''messageId'', mid (pushDelivered a now x)), (''userId'', a)]))"
    | (tl) "e \<in> set (snd (deliver_each a now xs ?w'))"
    by (auto simp: Let_def split: prod.splits)
  then show ?case
  proof cases
    case hd
    then show ?thesis
      by (auto simp: emit_if_online_cases pushDelivered_def split: option.splits if_splits)
  next
    case tl
    from Cons.IH [OF tl] show ?thesis by auto
  qed
qed

text \<open>
  Claim C7, amended: every event that \<open>markMessageAsRead\<close> emits is the \<open>messageRead\<close>
  event, and every event that \<open>getMessagesByUserId\<close> emits is a \<open>messageDelivered\<close> event
  for a stored message received by the caller; each is addressed to the socket registered
  for the sender of its message and its payload is the object with the two fields
  \<open>messageId\<close> and \<open>userId\<close>.
\<close>

theorem receipts_to_sender:
  "(\<forall>e \<in> set (snd (snd (markMessageAsRead w i u now))).
      \<exists>m s. findById w i = Some m \<and> getReceiverSocketId w (senderId m) = Some s
        \<and> e = Emit (ToSocket s) ''messageRead'' (PObject [(''messageId'', mid m), (''userId'', u)]))
   \<and> (\<forall>e \<in> set (snd (snd (getMessagesByUserId w a b now))).
      \<exists>m s. m \<in> set (messages w) \<and> receiverId m = a
        \<and> getReceiverSocketId w (senderId m) = Some s
        \<and> e = Emit (ToSocket s) ''messageDelivered''
                (PObject [(''messageId'', mid m), (''userId'', a)]))"
proof -
  have r: "\<forall>e \<in> set (snd (snd (markMessageAsRead w i u now))).
      \<exists>m s. findById w i = Some m \<and> getReceiverSocketId w (senderId m) = Some s
        \<and> e = Emit (ToSocket s) ''messageRead'' (PObject [(''messageId'', mid m), (''userId'', u)])"
    by (auto simp: markMessageAsRead_def Let_def emit_if_online_cases
        split: option.splits if_splits)
  have d: "\<forall>e \<in> set (snd (snd (getMessagesByUserId w a b now))).
      \<exists>m s. m \<in> set (messages w) \<and> receiverId m = a
        \<and> getReceiverSocketId w (senderId m) = Some s
        \<and> e = Emit (ToSocket s) ''messageDelivered''
                (PObject [(''messageId'', mid m), (''userId'', a)])"
  proof
    fix e
    assume "e \<in> set (snd (snd (getMessagesByUserId w a b now)))"
    then have "e \<in> set (snd (deliver_each a now
        (filter (undelivered a) (filter (\<lambda>m. \<not> list_ex (\<lambda>d. d = a) (deletedForMe m))
           (sort_key createdAt (filter (in_conversation a b) (messages w))))) w))"
      by (simp add: getMessagesByUserId_def Let_def split: prod.splits)
    from deliver_each_events [OF this]
    show "\<exists>m s. m \<in> set (messages w) \<and> receiverId m = a
        \<and> getReceiverSocketId w (senderId m) = Some s
        \<and> e = Emit (ToSocket s) ''messageDelivered''
                (PObject [(''messageId'', mid m), (''userId'', a)])"
      by (auto simp: undelivered_def)
  qed
  from r d show ?thesis by blast
qed

theorem receipts_to_sender_witness:
  "snd (snd (markMessageAsRead world_sent 7 3 9)) =
     [Emit (ToSocket ''sock-a'') ''messageRead'' (PObject [(''messageId'', 7), (''userId'', 3)])]
   \<and> snd (snd (getMessagesByUserId world_sent 3 1 9)) =
     [Emit (ToSocket ''sock-a'') ''messageDelivered''
        (PObject [(''messageId'', 7), (''userId'', 3)])]
   \<and> getReceiverSocketId world_sent (senderId hello_msg) = Some ''sock-a''"
  using receipts_to_sender [of world_sent 7 3 9 3 1]
  by (simp add: markMessageAsRead_def getMessagesByUserId_def findById_def world_sent_def
      hello_msg_def Let_def save_def emit_if_online_def getReceiverSocketId_def
      in_conversation_def undelivered_def pushDelivered_def)

section \<open>Contacts and chat partners\<close>

lemma str_includes_sublist: "str_includes s n \<longleftrightarrow> sublist n s"
  by (induction s) (auto simp: sublist_Cons_right)

lemma toLowerCase_char_nat:
  "(of_char (toLowerCase_char c) :: nat) =
     (if (65 \<le> (of_char c :: nat) \<and> (of_char c :: nat) \<le> 90)
         \<or> (192 \<le> (of_char c :: nat) \<and> (of_char c :: nat) \<le> 222 \<and> (of_char c :: nat) \<noteq> 215)
      then of_char c + 32 else of_char c)"
  by (simp add: toLowerCase_char_def Let_def)

lemma char_eq_nat: "c = d \<longleftrightarrow> (of_char c :: nat) = of_char d"
  by simp

lemma lower_letter_iff:
  assumes "97 \<le> (of_char d :: nat)" and "(of_char d :: nat) \<le> 122"
    and "(of_char U :: nat) + 32 = of_char d"
  shows "toLowerCase_char c = d \<longleftrightarrow> c = d \<or> c = U"
proof -
  have "toLowerCase_char c = d \<longleftrightarrow> (of_char (toLowerCase_char c) :: nat) = of_char d"
    by simp
  also have "\<dots> \<longleftrightarrow> (of_char c :: nat) = of_char d \<or> (of_char c :: nat) = of_char U"
  proof -
    define n k u where "n = (of_char c :: nat)" and "k = (of_char d :: nat)"
      and "u = (of_char U :: nat)"
    from assms have "97 \<le> k" "k \<le> 122" "u + 32 = k"
      by (simp_all add: k_def u_def)
    then have "(if (65 \<le> n \<and> n \<le> 90) \<or> (192 \<le> n \<and> n \<le> 222 \<and> n \<noteq> 215)
                then n + 32 else n) = k \<longleftrightarrow> n = k \<or> n = u"
      by auto
    then show ?thesis
      by (simp only: toLowerCase_char_nat n_def k_def u_def)
  qed
  also have "\<dots> \<longleftrightarrow> c = d \<or> c = U"
    by simp
  finally show ?thesis .
qed

lemma lower_other_iff:
  assumes "(of_char d :: nat) < 97"  and "(of_char d :: nat) < 65 \<or> 90 < (of_char d :: nat)"
  shows "toLowerCase_char c = d \<longleftrightarrow> c = d"
proof -
  have "toLowerCase_char c = d \<longleftrightarrow> (of_char (toLowerCase_char c) :: nat) = of_char d"
    by simp
  also have "\<dots> \<longleftrightarrow> (of_char c :: nat) = of_char d"
  proof -
    define n k where "n = (of_char c :: nat)" and "k = (of_char d :: nat)"
    from assms have "k < 97" "k < 65 \<or> 90 < k"
      by (simp_all add: k_def)
    then have "(if (65 \<le> n \<and> n \<le> 90) \<or> (192 \<le> n \<and> n \<le> 222 \<and> n \<noteq> 215)
                then n + 32 else n) = k \<longleftrightarrow> n = k"
      by auto
    then show ?thesis
      by (simp only: toLowerCase_char_nat n_def k_def)
  qed
  also have "\<dots> \<longleftrightarrow> c = d"
    by simp
  finally show ?thesis .
qed

lemma same_letter_pattern:
  "same_letter c (CHR ''c'') \<longleftrightarrow> c = CHR ''c'' \<or> c = CHR ''C''"
  "same_letter c (CHR ''h'') \<longleftrightarrow> c = CHR ''h'' \<or> c = CHR ''H''"
  "same_letter c (CHR ''a'') \<longleftrightarrow> c = CHR ''a'' \<or> c = CHR ''A''"
  "same_letter c (CHR ''t'') \<longleftrightarrow> c = CHR ''t'' \<or> c = CHR ''T''"
  "same_letter c (CHR ''b'') \<longleftrightarrow> c = CHR ''b'' \<or> c = CHR ''B''"
  "same_letter c (CHR ''o'') \<longleftrightarrow> c = CHR ''o'' \<or> c = CHR ''O''"
  "same_letter c (CHR '' '') \<longleftrightarrow> c = CHR '' ''"
  by (auto simp: same_letter_def upper_letters_def lower_letters_def)

lemma lower_pattern:
  "toLowerCase_char c = CHR ''c'' \<longleftrightarrow> same_letter c (CHR ''c'')"
  "toLowerCase_char c = CHR ''h'' \<longleftrightarrow> same_letter c (CHR ''h'')"
  "toLowerCase_char c = CHR ''a'' \<longleftrightarrow> same_letter c (CHR ''a'')"
  "toLowerCase_char c = CHR ''t'' \<longleftrightarrow> same_letter c (CHR ''t'')"
  "toLowerCase_char c = CHR ''b'' \<longleftrightarrow> same_letter c (CHR ''b'')"
  "toLowerCase_char c = CHR ''o'' \<longleftrightarrow> same_letter c (CHR ''o'')"
  "toLowerCase_char c = CHR '' '' \<longleftrightarrow> same_letter c (CHR '' '')"
  unfolding same_letter_pattern
  by (rule lower_letter_iff lower_other_iff; simp)+

lemma lower_matches:
  assumes "pat = ''chatbot'' \<or> pat = ''chat bot''"
  shows "map toLowerCase_char v = pat \<longleftrightarrow> list_all2 same_letter v pat"
proof -
  have "map toLowerCase_char v = pat \<longleftrightarrow> list_all2 (\<lambda>c d. toLowerCase_char c = d) v pat"
    by (simp add: list_all2_conv_all_nth list_eq_iff_nth_eq)
  also have "\<dots> \<longleftrightarrow> list_all2 same_letter v pat"
  proof (rule list.rel_cong [OF refl refl])
    fix c d
    assume "d \<in> set pat"
    with assms have "d \<in> {CHR ''c'', CHR ''h'', CHR ''a'', CHR ''t'', CHR ''b'', CHR ''o'', CHR '' ''}"
      by auto
    then show "(toLowerCase_char c = d) = same_letter c d"
      using lower_pattern [of c] by auto
  qed
  finally show ?thesis .
qed

lemma str_includes_toLowerCase:
  assumes "pat = ''chatbot'' \<or> pat = ''chat bot''"
  shows "str_includes (toLowerCase s) pat \<longleftrightarrow> contains_ignoring_case s pat"
proof
  assume "str_includes (toLowerCase s) pat"
  then obtain ps ss where "map toLowerCase_char s = ps @ (pat @ ss)"
    by (auto simp: str_includes_sublist sublist_def toLowerCase_def)
  then have "\<exists>p r. s = p @ r \<and> ps = map toLowerCase_char p
      \<and> pat @ ss = map toLowerCase_char r"
    by (simp only: map_eq_append_conv)
  then obtain p r where s: "s = p @ r" and r: "map toLowerCase_char r = pat @ ss"
    by auto
  from r have "\<exists>v q. r = v @ q \<and> pat = map toLowerCase_char v
      \<and> ss = map toLowerCase_char q"
    by (simp only: map_eq_append_conv)
  then obtain v q where rv: "r = v @ q" and "map toLowerCase_char v = pat"
    by auto
  then have "list_all2 same_letter v pat"
    by (simp only: lower_matches [OF assms])
  with s rv show "contains_ignoring_case s pat"
    by (auto simp: contains_ignoring_case_def)
next
  assume "contains_ignoring_case s pat"
  then obtain p v q where s: "s = p @ v @ q" and "list_all2 same_letter v pat"
    by (auto simp: contains_ignoring_case_def)
  then have "map toLowerCase_char v = pat"
    by (simp only: lower_matches [OF assms])
  with s have "toLowerCase s = toLowerCase p @ pat @ toLowerCase q"
    by (simp add: toLowerCase_def)
  then show "str_includes (toLowerCase s) pat"
    by (auto simp: str_includes_sublist sublist_def)
qed

lemma is_chatbot_iff:
  "is_chatbot u \<longleftrightarrow> contains_ignoring_case (fullName u) ''chatbot''
                  \<or> contains_ignoring_case (fullName u) ''chat bot''"
  using str_includes_toLowerCase [of "''chatbot''" "fullName u"]
    str_includes_toLowerCase [of "''chat bot''" "fullName u"]
  by (simp add: is_chatbot_def)

lemma is_chatbot_select [simp]: "is_chatbot (select_no_password u) = is_chatbot u"
  by (simp add: is_chatbot_def select_no_password_def)

lemma partner_iff:
  assumes "x \<noteq> me"
  shows "x \<in> (\<lambda>m. if senderId m = me then receiverId m else senderId m)
              ` {m \<in> set ms. senderId m = me \<or> receiverId m = me}
         \<longleftrightarrow> (\<exists>m \<in> set ms. in_conversation me x m)"
  using assms by (auto simp: in_conversation_def image_iff)

text \<open>
  Claim C10: neither listing returns a user whose name contains \<open>chatbot\<close> or
  \<open>chat bot\<close> in any mix of upper and lower case, whatever messages that user exchanged with the caller;
  every other user stays listed: any user but the caller among the contacts, and any
  user who exchanged a message with the caller among the chat partners. The contacts are
  the other users, without their passwords, in stored order, with the chat bots removed.
\<close>

theorem chatbot_never_listed:
  "(\<forall>u \<in> set (getAllContacts w me) \<union> set (getChatPartners w me).
       \<not> contains_ignoring_case (fullName u) ''chatbot''
       \<and> \<not> contains_ignoring_case (fullName u) ''chat bot'')
   \<and> (\<forall>u \<in> set (users w).
         uid u \<noteq> me
         \<and> \<not> contains_ignoring_case (fullName u) ''chatbot''
         \<and> \<not> contains_ignoring_case (fullName u) ''chat bot''
         \<longrightarrow> select_no_password u \<in> set (getAllContacts w me)
             \<and> ((\<exists>m \<in> set (messages w). in_conversation me (uid u) m)
                  \<longrightarrow> select_no_password u \<in> set (getChatPartners w me)))
   \<and> getAllContacts w me =
       filter (\<lambda>u. \<not> contains_ignoring_case (fullName u) ''chatbot''
                  \<and> \<not> contains_ignoring_case (fullName u) ''chat bot'')
         (map select_no_password (filter (\<lambda>u. uid u \<noteq> me) (users w)))"
proof -
  have a: "\<forall>u \<in> set (getAllContacts w me) \<union> set (getChatPartners w me).
       \<not> contains_ignoring_case (fullName u) ''chatbot''
       \<and> \<not> contains_ignoring_case (fullName u) ''chat bot''"
    by (auto simp: getAllContacts_def getChatPartners_def Let_def is_chatbot_iff)
  have b: "\<forall>u \<in> set (users w).
         uid u \<noteq> me
         \<and> \<not> contains_ignoring_case (fullName u) ''chatbot''
         \<and> \<not> contains_ignoring_case (fullName u) ''chat bot''
         \<longrightarrow> select_no_password u \<in> set (getAllContacts w me)
             \<and> ((\<exists>m \<in> set (messages w). in_conversation me (uid u) m)
                  \<longrightarrow> select_no_password u \<in> set (getChatPartners w me))"
  proof (intro ballI impI)
    fix u
    assume u: "u \<in> set (users w)"
      and h: "uid u \<noteq> me
         \<and> \<not> contains_ignoring_case (fullName u) ''chatbot''
         \<and> \<not> contains_ignoring_case (fullName u) ''chat bot''"
    then have nb: "\<not> is_chatbot u" by (simp add: is_chatbot_iff)
    have 1: "select_no_password u \<in> set (getAllContacts w me)"
      using u h nb by (auto simp: getAllContacts_def Let_def)
    have 2: "(\<exists>m \<in> set (messages w). in_conversation me (uid u) m)
                  \<longrightarrow> select_no_password u \<in> set (getChatPartners w me)"
    proof
      assume "\<exists>m \<in> set (messages w). in_conversation me (uid u) m"
      with h partner_iff [of "uid u" me "messages w"]
      have "uid u \<in> (\<lambda>m. if senderId m = me then receiverId m else senderId m)
              ` {m \<in> set (messages w). senderId m = me \<or> receiverId m = me}"
        by blast
      then show "select_no_password u \<in> set (getChatPartners w me)"
        using u nb by (auto simp: getChatPartners_def Let_def)
    qed
    from 1 2 show "select_no_password u \<in> set (getAllContacts w me)
             \<and> ((\<exists>m \<in> set (messages w). in_conversation me (uid u) m)
                  \<longrightarrow> select_no_password u \<in> set (getChatPartners w me))" ..
  qed
  have c: "getAllContacts w me =
       filter (\<lambda>u. \<not> contains_ignoring_case (fullName u) ''chatbot''
                  \<and> \<not> contains_ignoring_case (fullName u) ''chat bot'')
         (map select_no_password (filter (\<lambda>u. uid u \<noteq> me) (users w)))"
    by (simp add: getAllContacts_def Let_def is_chatbot_iff)
  from a b c show ?thesis by blast
qed

lemma contacts_example:
  "getAllContacts world_chats 1 = [select_no_password bob]"
  by code_simp

lemma partners_example:
  "getChatPartners world_chats 1 = [select_no_password bob]"
  by code_simp

theorem chatbot_never_listed_witness:
  "getAllContacts world_chats 1 = [select_no_password bob]
   \<and> getChatPartners world_chats 1 = [select_no_password bob]
   \<and> bot \<in> set (users world_chats) \<and> in_conversation 1 (uid bot) bot_msg
   \<and> bot_msg \<in> set (messages world_chats)
   \<and> contains_ignoring_case (fullName bot) ''chatbot''
   \<and> \<not> contains_ignoring_case (fullName bob) ''chatbot''
   \<and> \<not> contains_ignoring_case (fullName bob) ''chat bot''"
proof -
  have bobin: "select_no_password bob \<in> set (getAllContacts world_chats 1) \<union> set (getChatPartners world_chats 1)"
    using contacts_example partners_example by simp
  have nm: "fullName (select_no_password bob) = fullName bob"
    by (simp add: select_no_password_def)
  have name: "fullName bot = ''Support '' @ ''CHATBOT'' @ []"
    by (simp add: bot_def)
  have letters: "list_all2 same_letter ''CHATBOT'' ''chatbot''"
    by (simp add: same_letter_def upper_letters_def lower_letters_def)
  from chatbot_never_listed [of world_chats 1] bobin nm
  have "\<not> contains_ignoring_case (fullName bob) ''chatbot''
       \<and> \<not> contains_ignoring_case (fullName bob) ''chat bot''"
    by (metis (no_types, lifting))
  moreover have "contains_ignoring_case (fullName bot) ''chatbot''"
    unfolding contains_ignoring_case_def using name letters by blast
  ultimately show ?thesis
    using contacts_example partners_example
    by (simp add: world_chats_def in_conversation_def bot_def bot_msg_def)
qed

section \<open>Invariants of the store along a run\<close>

lemma map_mid_updateOne: "map mid (updateOne m' xs) = map mid xs"
  by (induction xs) auto

lemma set_updateOne: "set (updateOne m' xs) \<subseteq> insert m' (set xs)"
  by (induction xs) auto

lemma updateOne_distinct:
  "distinct (map mid xs) \<Longrightarrow>
     updateOne m' xs = map (\<lambda>x. if mid x = mid m' then m' else x) xs"
proof (induction xs)
  case Nil
  then show ?case by simp
next
  case (Cons x xs)
  show ?case
  proof (cases "mid x = mid m'")
    case True
    from Cons.prems have "mid x \<notin> mid ` set xs" by simp
    with True have "\<forall>y \<in> set xs. mid y \<noteq> mid m'" by (metis imageI)
    then have "map (\<lambda>x. if mid x = mid m' then m' else x) xs = xs"
      by (simp add: map_idI)
    with True show ?thesis by simp
  next
    case False
    with Cons show ?thesis by simp
  qed
qed

lemma save_preserves:
  "\<forall>x \<in> set (messages w). P x \<Longrightarrow> P m' \<Longrightarrow> \<forall>x \<in> set (messages (save m' w)). P x"
  using set_updateOne [of m' "messages w"] by (auto simp: save_def)

lemma deliver_each_preserves:
  "\<forall>x \<in> set (messages w). P x \<Longrightarrow> \<forall>m \<in> set ms. P (pushDelivered a now m) \<Longrightarrow>
     \<forall>x \<in> set (messages (fst (deliver_each a now ms w))). P x"
proof (induction ms arbitrary: w)
  case Nil
  then show ?case by simp
next
  case (Cons m ms)
  have "\<forall>x \<in> set (messages (save (pushDelivered a now m) w)). P x"
    using Cons.prems by (intro save_preserves) auto
  from Cons.IH [OF this] Cons.prems(2) show ?case
    by (simp add: Let_def split: prod.splits)
qed

lemma step_preserves:
  assumes inv: "\<forall>x \<in> set (messages w). P x"
    and rd: "\<And>m u now. m \<in> set (messages w) \<Longrightarrow> P m \<Longrightarrow> \<not> list_ex (\<lambda>r. fst r = u) (readBy m)
               \<Longrightarrow> P (m\<lparr>readBy := readBy m @ [(u, now)]\<rparr>)"
    and dl: "\<And>m a now. m \<in> set (messages w) \<Longrightarrow> P m \<Longrightarrow> undelivered a m \<Longrightarrow> P (pushDelivered a now m)"
    and ar: "\<And>m u e. m \<in> set (messages w) \<Longrightarrow> P m \<Longrightarrow>
               P (m\<lparr>reactions := filter (\<lambda>r. fst r \<noteq> u) (reactions m) @ [(u, e)]\<rparr>)"
    and rr: "\<And>m u. m \<in> set (messages w) \<Longrightarrow> P m \<Longrightarrow>
               P (m\<lparr>reactions := filter (\<lambda>r. fst r \<noteq> u) (reactions m)\<rparr>)"
    and ed: "\<And>m t now. m \<in> set (messages w) \<Longrightarrow> P m \<Longrightarrow> \<not> deletedForEveryone m \<Longrightarrow>
               P (m\<lparr>msg_text := t, edited := True, editedAt := Some now\<rparr>)"
    and de: "\<And>m. m \<in> set (messages w) \<Longrightarrow> P m \<Longrightarrow>
               P (m\<lparr>msg_text := [], msg_image := Some [], video := Some [], audio := Some [],
                    deletedForEveryone := True\<rparr>)"
    and dm: "\<And>m u. m \<in> set (messages w) \<Longrightarrow> P m \<Longrightarrow> P (m\<lparr>deletedForMe := deletedForMe m @ [u]\<rparr>)"
    and nw: "\<And>sr. \<not> list_ex (\<lambda>m. mid m = sr_newId sr) (messages w) \<Longrightarrow> P (newMessage sr)"
    and wh: "whole rq"
  shows "\<forall>x \<in> set (messages (step w rq)). P x"
proof (cases rq)
  case (RSend sr)
  show ?thesis
    using inv nw [of sr] by (auto simp: RSend sendMessage_def)
next
  case (RFetch a b now)
  let ?ms = "filter (undelivered a) (filter (\<lambda>m. \<not> list_ex (\<lambda>d. d = a) (deletedForMe m))
           (sort_key createdAt (filter (in_conversation a b) (messages w))))"
  have "\<forall>m \<in> set ?ms. P (pushDelivered a now m)"
    using dl inv by auto
  from deliver_each_preserves [OF inv this] show ?thesis
    by (simp add: RFetch getMessagesByUserId_def Let_def split: prod.splits)
next
  case (RMarkRead i u now)
  show ?thesis
  proof (cases "findById w i")
    case None
    with inv show ?thesis by (simp add: RMarkRead markMessageAsRead_def)
  next
    case (Some m)
    then have "m \<in> set (messages w)" by (simp add: findById_D)
    with Some inv rd [where m = m and u = u and now = now] show ?thesis
      by (auto simp: RMarkRead markMessageAsRead_def Let_def intro: save_preserves [rule_format])
  qed
next
  case (RAddReaction i e u)
  show ?thesis
  proof (cases "findById w i")
    case None
    with inv show ?thesis by (simp add: RAddReaction addReaction_def)
  next
    case (Some m)
    then have "m \<in> set (messages w)" by (simp add: findById_D)
    with Some inv ar [where m = m and u = u and e = "the e"] show ?thesis
      by (auto simp: RAddReaction addReaction_def Let_def intro: save_preserves [rule_format])
  qed
next
  case (RRemoveReaction i u)
  show ?thesis
  proof (cases "findById w i")
    case None
    with inv show ?thesis by (simp add: RRemoveReaction removeReaction_def)
  next
    case (Some m)
    then have "m \<in> set (messages w)" by (simp add: findById_D)
    with Some inv rr [where m = m and u = u] show ?thesis
      by (auto simp: RRemoveReaction removeReaction_def Let_def intro: save_preserves [rule_format])
  qed
next
  case (REdit i t u now)
  show ?thesis
  proof (cases "findById w i")
    case None
    with inv show ?thesis by (simp add: REdit editMessage_def)
  next
    case (Some m)
    then have "m \<in> set (messages w)" by (simp add: findById_D)
    with Some inv ed [where m = m and t = "trim (the t)" and now = now] show ?thesis
      by (auto simp: REdit editMessage_def Let_def intro: save_preserves [rule_format])
  qed
next
  case (RDelete i b u)
  show ?thesis
  proof (cases "findById w i")
    case None
    with inv show ?thesis by (simp add: RDelete deleteMessage_def)
  next
    case (Some m)
    then have "m \<in> set (messages w)" by (simp add: findById_D)
    with Some inv de [where m = m] dm [where m = m and u = u] show ?thesis
      by (auto simp: RDelete deleteMessage_def Let_def intro: save_preserves [rule_format])
  qed
next
  case (RConnect u s)
  with inv show ?thesis by (simp add: connection_def Let_def)
next
  case (RDisconnect u s)
  with inv show ?thesis by (simp add: disconnect_def Let_def)
next
  case (RTyping u n r now)
  with inv show ?thesis by (simp add: typing_def Let_def)
next
  case (RStopTyping u r)
  with inv show ?thesis by (simp add: stopTyping_def Let_def)
qed (use wh in simp_all)

lemma run_Nil [simp]: "run w [] = w"
  by (simp add: run_def)

lemma run_Cons [simp]: "run w (rq # rqs) = run (step w rq) rqs"
  by (simp add: run_def)

section \<open>Reactions\<close>



text \<open>
  The second step of an overlapped request leaves a stored message as it is or changes it
  without touching its identifier or its reactions, and without shortening \<open>readBy\<close> or
  \<open>deliveredTo\<close>.
\<close>

lemma updateById_rel:
  assumes "x \<in> set (updateById i f xs)" and "\<And>s. R s s" and "\<And>s. R s (f s)"
  shows "\<exists>s \<in> set xs. R s x"
proof -
  from assms(1) set_updateById [of i f xs] have "x \<in> set xs \<or> x \<in> f ` set xs" by blast
  then show ?thesis
  proof
    assume "x \<in> set xs"
    with assms(2) show ?thesis by blast
  next
    assume "x \<in> f ` set xs"
    then obtain s where "s \<in> set xs" and "x = f s" by blast
    with assms(3) show ?thesis by blast
  qed
qed

lemma second_step_messages:
  assumes "\<not> whole rq" and "x \<in> set (messages (step w rq))"
  shows "\<exists>s \<in> set (messages w). mid x = mid s \<and> reactions x = reactions s
           \<and> prefix (readBy s) (readBy x) \<and> prefix (deliveredTo s) (deliveredTo x)"
    (is "\<exists>s \<in> _. ?R s x")
proof (cases rq)
  case (RMarkReadSave doc u now)
  show ?thesis
  proof (cases "list_ex (\<lambda>r. fst r = u) (readBy doc)")
    case True
    with assms(2) RMarkReadSave have "x \<in> set (messages w)"
      by (simp add: markMessageAsRead_save_def)
    then show ?thesis by auto
  next
    case False
    with assms(2) RMarkReadSave
    have "x \<in> set (updateById (mid doc) (\<lambda>s. s\<lparr>readBy := readBy s @ [(u, now)]\<rparr>) (messages w))"
      by (simp add: markMessageAsRead_save_def)
    then show ?thesis
      by (rule updateById_rel) simp_all
  qed
next
  case (RDeliverOne doc u now)
  with assms(2)
  have "x \<in> set (updateById (mid doc) (\<lambda>s. s\<lparr>deliveredTo := deliveredTo s @ [(u, now)]\<rparr>)
                  (messages w))"
    by (simp add: deliver_one_def)
  then show ?thesis
    by (rule updateById_rel) simp_all
next
  case (REditSave doc t u now)
  let ?f = "\<lambda>s. s\<lparr>msg_text := assigned (msg_text doc) (trim (the t)) (msg_text s),
                   edited := assigned (edited doc) True (edited s),
                   editedAt := assigned (editedAt doc) (Some now) (editedAt s)\<rparr>"
  from assms(2) REditSave
  have "x \<in> set (messages w) \<or> x \<in> set (updateById (mid doc) ?f (messages w))"
    by (simp add: editMessage_save_def Let_def split: if_splits)
  then show ?thesis
  proof
    assume "x \<in> set (messages w)"
    then show ?thesis by auto
  next
    assume "x \<in> set (updateById (mid doc) ?f (messages w))"
    then show ?thesis
      by (rule updateById_rel) simp_all
  qed
next
  case (RDeleteSave doc b u)
  let ?f = "\<lambda>s. s\<lparr>msg_text := assigned (msg_text doc) [] (msg_text s),
                   msg_image := assigned (msg_image doc) (Some []) (msg_image s),
                   video := assigned (video doc) (Some []) (video s),
                   audio := assigned (audio doc) (Some []) (audio s),
                   deletedForEveryone :=
                     assigned (deletedForEveryone doc) True (deletedForEveryone s)\<rparr>"
  let ?g = "\<lambda>s. s\<lparr>deletedForMe := deletedForMe s @ [u]\<rparr>"
  from assms(2) RDeleteSave
  have "x \<in> set (messages w) \<or> x \<in> set (updateById (mid doc) ?f (messages w))
        \<or> x \<in> set (updateById (mid doc) ?g (messages w))"
    by (simp add: deleteMessage_save_def Let_def split: if_splits)
  then show ?thesis
  proof (elim disjE)
    assume "x \<in> set (messages w)"
    then show ?thesis by auto
  next
    assume "x \<in> set (updateById (mid doc) ?f (messages w))"
    then show ?thesis
      by (rule updateById_rel) simp_all
  next
    assume "x \<in> set (updateById (mid doc) ?g (messages w))"
    then show ?thesis
      by (rule updateById_rel) simp_all
  qed
qed (use assms(1) in simp_all)






section \<open>Properties of one message along a run\<close>

lemma messages_save: "messages (save m' w) = updateOne m' (messages w)"
  by (simp add: save_def)

lemma map_mid_deliver_each:
  "map mid (messages (fst (deliver_each a now ms w))) = map mid (messages w)"
proof (induction ms arbitrary: w)
  case Nil
  then show ?case by simp
next
  case (Cons m ms)
  have "map mid (messages (save (pushDelivered a now m) w)) = map mid (messages w)"
    by (simp add: messages_save map_mid_updateOne)
  with Cons.IH [of "save (pushDelivered a now m) w"] show ?case
    by (simp add: Let_def case_prod_beta)
qed

lemma mids_step:
  "map mid (messages (step w rq)) = map mid (messages w)
   \<or> (\<exists>sr. \<not> list_ex (\<lambda>m. mid m = sr_newId sr) (messages w)
         \<and> messages (step w rq) = messages w @ [newMessage sr])"
proof (cases rq)
  case (RSend sr)
  then show ?thesis by (auto simp: sendMessage_def)
next
  case (RFetch a b now)
  then show ?thesis
    by (simp add: getMessagesByUserId_def Let_def map_mid_deliver_each split: prod.splits)
next
  case (RMarkRead i u now)
  then show ?thesis
    by (simp add: markMessageAsRead_def Let_def messages_save map_mid_updateOne
        split: option.splits)
next
  case (RAddReaction i e u)
  then show ?thesis
    by (simp add: addReaction_def Let_def messages_save map_mid_updateOne split: option.splits)
next
  case (RRemoveReaction i u)
  then show ?thesis
    by (simp add: removeReaction_def Let_def messages_save map_mid_updateOne split: option.splits)
next
  case (REdit i t u now)
  then show ?thesis
    by (simp add: editMessage_def Let_def messages_save map_mid_updateOne split: option.splits)
next
  case (RDelete i b u)
  then show ?thesis
    by (simp add: deleteMessage_def Let_def messages_save map_mid_updateOne split: option.splits)
next
  case (RConnect u s)
  then show ?thesis by (simp add: connection_def Let_def)
next
  case (RDisconnect u s)
  then show ?thesis by (simp add: disconnect_def Let_def)
next
  case (RTyping u n r now)
  then show ?thesis by (simp add: typing_def Let_def)
next
  case (RStopTyping u r)
  then show ?thesis by (simp add: stopTyping_def Let_def)
next
  case (RMarkReadSave doc u now)
  then show ?thesis
    by (simp add: markMessageAsRead_save_def map_mid_updateById)
next
  case (RDeliverOne doc u now)
  then show ?thesis
    by (simp add: deliver_one_def map_mid_updateById)
next
  case (REditSave doc t u now)
  then show ?thesis
    by (simp add: editMessage_save_def Let_def map_mid_updateById)
next
  case (RDeleteSave doc b u)
  then show ?thesis
    by (simp add: deleteMessage_save_def Let_def map_mid_updateById)
qed

lemma mid_newMessage [simp]: "mid (newMessage sr) = sr_newId sr"
  by (simp add: newMessage_def)

lemma mid_pushDelivered [simp]: "mid (pushDelivered a now m) = mid m"
  by (simp add: pushDelivered_def)

lemma wf_store_step:
  assumes "wf_store w"
  shows "wf_store (step w rq)"
proof -
  from mids_step [of w rq] consider
      (same) "map mid (messages (step w rq)) = map mid (messages w)"
    | (new) sr where "\<not> list_ex (\<lambda>m. mid m = sr_newId sr) (messages w)"
        and "messages (step w rq) = messages w @ [newMessage sr]"
    by blast
  then show ?thesis
  proof cases
    case same
    with assms show ?thesis by (simp add: wf_store_def)
  next
    case new
    from new(1) have "sr_newId sr \<notin> mid ` set (messages w)"
      by (simp add: list_ex_iff image_iff) metis
    with assms new(2) show ?thesis by (simp add: wf_store_def)
  qed
qed

lemma wf_store_run: "wf_store w \<Longrightarrow> wf_store (run w rqs)"
  by (induction rqs arbitrary: w) (simp_all add: wf_store_step)

lemma mids_kept: "i \<in> mid ` set (messages w) \<Longrightarrow> i \<in> mid ` set (messages (step w rq))"
proof -
  assume i: "i \<in> mid ` set (messages w)"
  then have "i \<in> set (map mid (messages w))" by simp
  with mids_step [of w rq] have "i \<in> set (map mid (messages (step w rq)))"
    by (elim disjE exE) (simp_all only: set_map set_append image_Un UnI1 conj_imp_eq_imp_imp)
  then show ?thesis by simp
qed

lemma step_at_id:
  assumes ex: "i \<in> mid ` set (messages w)"
    and inv: "\<forall>x \<in> set (messages w). mid x = i \<longrightarrow> Q x"
    and rd: "\<And>m u now. Q m \<Longrightarrow> Q (m\<lparr>readBy := readBy m @ [(u, now)]\<rparr>)"
    and dl: "\<And>m a now. Q m \<Longrightarrow> Q (pushDelivered a now m)"
    and ar: "\<And>m u e. Q m \<Longrightarrow>
               Q (m\<lparr>reactions := filter (\<lambda>r. fst r \<noteq> u) (reactions m) @ [(u, e)]\<rparr>)"
    and rr: "\<And>m u. Q m \<Longrightarrow> Q (m\<lparr>reactions := filter (\<lambda>r. fst r \<noteq> u) (reactions m)\<rparr>)"
    and ed: "\<And>m t now. Q m \<Longrightarrow> \<not> deletedForEveryone m \<Longrightarrow>
               Q (m\<lparr>msg_text := t, edited := True, editedAt := Some now\<rparr>)"
    and de: "\<And>m. Q m \<Longrightarrow>
               Q (m\<lparr>msg_text := [], msg_image := Some [], video := Some [], audio := Some [],
                    deletedForEveryone := True\<rparr>)"
    and dm: "\<And>m u. Q m \<Longrightarrow> Q (m\<lparr>deletedForMe := deletedForMe m @ [u]\<rparr>)"
    and wh: "whole rq"
  shows "\<forall>x \<in> set (messages (step w rq)). mid x = i \<longrightarrow> Q x"
proof (rule step_preserves [where P = "\<lambda>x. mid x = i \<longrightarrow> Q x" and w = w])
  show "\<forall>x \<in> set (messages w). mid x = i \<longrightarrow> Q x" by (rule inv)
next
  fix sr :: send_request
  assume "\<not> list_ex (\<lambda>m. mid m = sr_newId sr) (messages w)"
  with ex show "mid (newMessage sr) = i \<longrightarrow> Q (newMessage sr)"
    by (auto simp: list_ex_iff)
qed (use rd dl ar rr ed de dm wh in auto)

lemma run_at_id:
  assumes ex: "i \<in> mid ` set (messages w)"
    and inv: "\<forall>x \<in> set (messages w). mid x = i \<longrightarrow> Q x"
    and rd: "\<And>m u now. Q m \<Longrightarrow> Q (m\<lparr>readBy := readBy m @ [(u, now)]\<rparr>)"
    and dl: "\<And>m a now. Q m \<Longrightarrow> Q (pushDelivered a now m)"
    and ar: "\<And>m u e. Q m \<Longrightarrow>
               Q (m\<lparr>reactions := filter (\<lambda>r. fst r \<noteq> u) (reactions m) @ [(u, e)]\<rparr>)"
    and rr: "\<And>m u. Q m \<Longrightarrow> Q (m\<lparr>reactions := filter (\<lambda>r. fst r \<noteq> u) (reactions m)\<rparr>)"
    and ed: "\<And>m t now. Q m \<Longrightarrow> \<not> deletedForEveryone m \<Longrightarrow>
               Q (m\<lparr>msg_text := t, edited := True, editedAt := Some now\<rparr>)"
    and de: "\<And>m. Q m \<Longrightarrow>
               Q (m\<lparr>msg_text := [], msg_image := Some [], video := Some [], audio := Some [],
                    deletedForEveryone := True\<rparr>)"
    and dm: "\<And>m u. Q m \<Longrightarrow> Q (m\<lparr>deletedForMe := deletedForMe m @ [u]\<rparr>)"
    and wh: "list_all whole rqs"
  shows "i \<in> mid ` set (messages (run w rqs))
         \<and> (\<forall>x \<in> set (messages (run w rqs)). mid x = i \<longrightarrow> Q x)"
  using ex inv wh
proof (induction rqs arbitrary: w)
  case Nil
  then show ?case by simp
next
  case (Cons rq rqs)
  have 1: "i \<in> mid ` set (messages (step w rq))"
    using Cons.prems(1) by (rule mids_kept)
  have wh: "whole rq" and whs: "list_all whole rqs"
    using Cons.prems(3) by simp_all
  have 2: "\<forall>x \<in> set (messages (step w rq)). mid x = i \<longrightarrow> Q x"
    using Cons.prems(1,2) rd dl ar rr ed de dm wh by (rule step_at_id)
  from Cons.IH [OF 1 2 whs] show ?case by simp
qed

lemma findById_ex: "i \<in> mid ` set (messages w) \<Longrightarrow> \<exists>m. findById w i = Some m"
  by (cases "findById w i") (auto simp: findById_def find_None_iff)

lemma wf_store_unique:
  "wf_store w \<Longrightarrow> findById w i = Some m \<Longrightarrow> x \<in> set (messages w) \<Longrightarrow> mid x = i \<Longrightarrow> x = m"
  using findById_D [of w i m]
  by (auto simp: wf_store_def distinct_map dest: inj_onD)

section \<open>deleteMessage for everyone\<close>

lemma tombstone_closed:
  "tombstone m \<Longrightarrow> tombstone (m\<lparr>readBy := r\<rparr>)"
  "tombstone m \<Longrightarrow> tombstone (pushDelivered a now m)"
  "tombstone m \<Longrightarrow> tombstone (m\<lparr>reactions := rs\<rparr>)"
  "tombstone m \<Longrightarrow> tombstone (m\<lparr>deletedForMe := d\<rparr>)"
  "tombstone (m\<lparr>msg_text := [], msg_image := Some [], video := Some [], audio := Some [],
               deletedForEveryone := True\<rparr>)"
  by (simp_all add: tombstone_def pushDelivered_def)

lemma tombstone_run:
  assumes "i \<in> mid ` set (messages w)"
    and "\<forall>x \<in> set (messages w). mid x = i \<longrightarrow> tombstone x"
    and "list_all whole rqs"
  shows "\<forall>x \<in> set (messages (run w rqs)). mid x = i \<longrightarrow> tombstone x"
proof -
  have "i \<in> mid ` set (messages (run w rqs))
         \<and> (\<forall>x \<in> set (messages (run w rqs)). mid x = i \<longrightarrow> tombstone x)"
    using assms(1,2)
  proof (rule run_at_id)
    fix m t now
    assume "tombstone m" and "\<not> deletedForEveryone m"
    then show "tombstone (m\<lparr>msg_text := t, edited := True, editedAt := Some now\<rparr>)"
      by (simp add: tombstone_def)
  qed (simp_all add: tombstone_closed assms(3))
  then show ?thesis ..
qed

lemma fetch_response:
  assumes "fst (getMessagesByUserId w a b now) = Inr msgs" and "x \<in> set msgs"
  shows "\<exists>m \<in> set (messages w). x = m \<or> x = pushDelivered a now m"
proof -
  from assms(1) have "msgs = map (\<lambda>m. if undelivered a m then pushDelivered a now m else m)
      (filter (\<lambda>m. \<not> list_ex (\<lambda>d. d = a) (deletedForMe m))
         (sort_key createdAt (filter (in_conversation a b) (messages w))))"
    by (simp add: getMessagesByUserId_def Let_def case_prod_beta)
  with assms(2) show ?thesis by auto
qed

lemma fetch_tombstone:
  assumes "\<forall>x \<in> set (messages w). mid x = i \<longrightarrow> tombstone x"
    and "fst (getMessagesByUserId w a b now) = Inr msgs" and "x \<in> set msgs" and "mid x = i"
  shows "tombstone x"
proof -
  from fetch_response [OF assms(2,3)] obtain m where m: "m \<in> set (messages w)"
    and x: "x = m \<or> x = pushDelivered a now m" by blast
  from x assms(4) have "mid m = i" by auto
  with assms(1) m have "tombstone m" by blast
  with x show ?thesis by (auto simp: tombstone_closed)
qed

lemma save_at_id:
  assumes "wf_store w" and "mid m' = i"
  shows "\<forall>x \<in> set (messages (save m' w)). mid x = i \<longrightarrow> x = m'"
  using assms by (auto simp: wf_store_def messages_save updateOne_distinct)

text \<open>
  A request to delete for everyone by a user other than the sender is refused with 403, a
  permission error, and changes nothing. Requested by the sender it answers with the
  message flagged \<open>deletedForEveryone\<close>, with empty text and no media URL, and stores it;
  when the requests that follow are served whole, every conversation fetch that returns
  the message returns it in that state.
\<close>

theorem deleteForEveryone_tombstone:
  "(findById w i = Some m \<and> senderId m \<noteq> u \<longrightarrow>
      deleteMessage w i True u
        = (Inl (Failure 403 ''Only the sender can delete for everyone''), w, [])
      \<and> error_class_of (Failure 403 ''Only the sender can delete for everyone'')
          = PermissionError)
   \<and> (wf_store w \<and> findById w i = Some m \<and> senderId m = u \<longrightarrow>
        (\<exists>m'. fst (deleteMessage w i True u) = Inr m'
           \<and> m' = m\<lparr>msg_text := [], msg_image := Some [], video := Some [], audio := Some [],
                     deletedForEveryone := True\<rparr>
           \<and> tombstone m'
           \<and> findById (fst (snd (deleteMessage w i True u))) i = Some m'
           \<and> (\<forall>rqs a b now msgs.
                 list_all whole rqs
                 \<and> fst (getMessagesByUserId (run (fst (snd (deleteMessage w i True u))) rqs) a b now)
                   = Inr msgs
                 \<longrightarrow> (\<forall>x \<in> set msgs. mid x = i \<longrightarrow> tombstone x))))"
proof -
  have a: "findById w i = Some m \<and> senderId m \<noteq> u \<longrightarrow>
      deleteMessage w i True u
        = (Inl (Failure 403 ''Only the sender can delete for everyone''), w, [])
      \<and> error_class_of (Failure 403 ''Only the sender can delete for everyone'')
          = PermissionError"
    by (simp add: deleteMessage_def)
  have b: "wf_store w \<and> findById w i = Some m \<and> senderId m = u \<longrightarrow>
        (\<exists>m'. fst (deleteMessage w i True u) = Inr m'
           \<and> m' = m\<lparr>msg_text := [], msg_image := Some [], video := Some [], audio := Some [],
                     deletedForEveryone := True\<rparr>
           \<and> tombstone m'
           \<and> findById (fst (snd (deleteMessage w i True u))) i = Some m'
           \<and> (\<forall>rqs a b now msgs.
                 list_all whole rqs
                 \<and> fst (getMessagesByUserId (run (fst (snd (deleteMessage w i True u))) rqs) a b now)
                   = Inr msgs
                 \<longrightarrow> (\<forall>x \<in> set msgs. mid x = i \<longrightarrow> tombstone x)))"
  proof
    assume h: "wf_store w \<and> findById w i = Some m \<and> senderId m = u"
    let ?m' = "m\<lparr>msg_text := [], msg_image := Some [], video := Some [], audio := Some [],
                 deletedForEveryone := True\<rparr>"
    let ?w' = "fst (snd (deleteMessage w i True u))"
    from h have i: "mid m = i" and mem: "m \<in> set (messages w)"
      using findById_D [of w i m] by blast+
    show "\<exists>m'. fst (deleteMessage w i True u) = Inr m'
           \<and> m' = ?m'
           \<and> tombstone m'
           \<and> findById ?w' i = Some m'
           \<and> (\<forall>rqs a b now msgs.
                 list_all whole rqs
                 \<and> fst (getMessagesByUserId (run ?w' rqs) a b now) = Inr msgs
                 \<longrightarrow> (\<forall>x \<in> set msgs. mid x = i \<longrightarrow> tombstone x))"
    proof (intro exI conjI allI impI ballI)
      show r: "fst (deleteMessage w i True u) = Inr ?m'"
        using h by (simp add: deleteMessage_def Let_def)
      show "?m' = ?m'" ..
      show t: "tombstone ?m'" by (simp add: tombstone_closed)
      have w': "?w' = save ?m' w"
        using h by (simp add: deleteMessage_def Let_def)
      show "findById ?w' i = Some ?m'"
        using h i by (simp add: w' findById_save)
      have ex: "i \<in> mid ` set (messages ?w')"
        using mem i by (simp add: w' messages_save flip: set_map add: map_mid_updateOne) force
      have inv: "\<forall>x \<in> set (messages ?w'). mid x = i \<longrightarrow> tombstone x"
        using save_at_id [of w ?m' i] h i t by (auto simp: w')
      fix rqs a b now msgs x
      assume hyp: "list_all whole rqs
          \<and> fst (getMessagesByUserId (run ?w' rqs) a b now) = Inr msgs"
        and x: "x \<in> set msgs" "mid x = i"
      from hyp have wh: "list_all whole rqs"
        and fetched: "fst (getMessagesByUserId (run ?w' rqs) a b now) = Inr msgs"
        by simp_all
      from tombstone_run [OF ex inv wh] fetched x show "tombstone x"
        by (rule fetch_tombstone)
    qed
  qed
  from a b show ?thesis by blast
qed

lemma delete_example_1:
  "deleteMessage world_sent 7 True 3
     = (Inl (Failure 403 ''Only the sender can delete for everyone''), world_sent, [])"
  by (simp add: deleteMessage_def findById_def world_sent_def hello_msg_def)

lemma delete_example_2:
  "deleteMessage world_sent 7 True 1
     = (Inr tombstone_msg, world_deleted, [])"
  by (simp add: deleteMessage_def findById_def world_sent_def hello_msg_def Let_def save_def
      tombstone_msg_def world_deleted_def emit_if_found_def)

lemma delete_example_3:
  "fst (getMessagesByUserId (run world_deleted delete_example) 3 1 13)
     = Inr [tombstone_msg\<lparr>reactions := [(3, ''+1'')], readBy := [(3, 12)],
                           deliveredTo := [(1, 5), (3, 13)]\<rparr>]"
  by code_simp

theorem deleteForEveryone_tombstone_witness:
  "wf_store world_sent \<and> findById world_sent 7 = Some hello_msg \<and> senderId hello_msg = 1
   \<and> deleteMessage world_sent 7 True 3
       = (Inl (Failure 403 ''Only the sender can delete for everyone''), world_sent, [])
   \<and> fst (deleteMessage world_sent 7 True 1) = Inr tombstone_msg
   \<and> fst (snd (deleteMessage world_sent 7 True 1)) = world_deleted
   \<and> fst (getMessagesByUserId (run world_deleted delete_example) 3 1 13)
       = Inr [tombstone_msg\<lparr>reactions := [(3, ''+1'')], readBy := [(3, 12)],
                             deliveredTo := [(1, 5), (3, 13)]\<rparr>]
   \<and> list_all whole delete_example
   \<and> tombstone (tombstone_msg\<lparr>reactions := [(3, ''+1'')], readBy := [(3, 12)],
                               deliveredTo := [(1, 5), (3, 13)]\<rparr>)"
proof -
  have wf: "wf_store world_sent"
    by (simp add: wf_store_def world_sent_def)
  have f: "findById world_sent 7 = Some hello_msg"
    by (simp add: findById_def world_sent_def hello_msg_def)
  have s: "senderId hello_msg = 1" "senderId hello_msg \<noteq> 3"
    by (simp_all add: hello_msg_def)
  have m: "mid (tombstone_msg\<lparr>reactions := [(3, ''+1'')], readBy := [(3, 12)],
                               deliveredTo := [(1, 5), (3, 13)]\<rparr>) = 7"
    by (simp add: tombstone_msg_def hello_msg_def)
  have wh: "list_all whole delete_example"
    by (simp add: delete_example_def)
  from deleteForEveryone_tombstone [of world_sent 7 hello_msg 1] wf f s
  have "\<forall>rqs a b now msgs.
          list_all whole rqs
          \<and> fst (getMessagesByUserId (run (fst (snd (deleteMessage world_sent 7 True 1))) rqs) a b now)
            = Inr msgs
          \<longrightarrow> (\<forall>x \<in> set msgs. mid x = 7 \<longrightarrow> tombstone x)"
    by blast
  then have "\<forall>rqs a b now msgs.
          list_all whole rqs
          \<and> fst (getMessagesByUserId (run world_deleted rqs) a b now) = Inr msgs
          \<longrightarrow> (\<forall>x \<in> set msgs. mid x = 7 \<longrightarrow> tombstone x)"
    by (simp only: delete_example_2 fst_conv snd_conv)
  from this [rule_format, OF conjI [OF wh delete_example_3]]
  have "\<forall>x \<in> set [tombstone_msg\<lparr>reactions := [(3, ''+1'')], readBy := [(3, 12)],
                             deliveredTo := [(1, 5), (3, 13)]\<rparr>]. mid x = 7 \<longrightarrow> tombstone x"
    by blast
  with m have "tombstone (tombstone_msg\<lparr>reactions := [(3, ''+1'')], readBy := [(3, 12)],
                               deliveredTo := [(1, 5), (3, 13)]\<rparr>)"
    by simp
  with wf f s wh delete_example_1 delete_example_2 delete_example_3 show ?thesis
    by simp
qed

text \<open>
  Claim C8 says that after the sender deleted a message for everyone every later fetch
  shows it flagged, with empty text and no media URL. Alice sends an edit of her message
  and a delete for everyone so that they overlap: the edit loads the message, which is not
  deleted, and passes the check \<^verbatim>\<open>Can't edit if deleted for everyone\<close>; the delete then
  loads, clears and saves; the edit then saves its text. The store, and every fetch from
  then on, holds the message flagged \<open>deletedForEveryone\<close> with the text \<open>again\<close>.
\<close>

theorem edit_saved_after_delete_restores_text:
  "findById world_sent 7 = Some hello_msg
   \<and> senderId hello_msg = 1 \<and> deletedForEveryone hello_msg = False
   \<and> deleteMessage world_sent 7 True 1 = (Inr tombstone_msg, world_deleted, [])
   \<and> fst (editMessage_save world_deleted hello_msg (Some ''again'') 1 11)
       = Inr (hello_msg\<lparr>msg_text := ''again'', edited := True, editedAt := Some 11\<rparr>)
   \<and> messages (run world_sent [RDelete 7 True 1, REditSave hello_msg (Some ''again'') 1 11])
       = [edited_tombstone_msg]
   \<and> fst (getMessagesByUserId
            (run world_sent [RDelete 7 True 1, REditSave hello_msg (Some ''again'') 1 11]) 1 3 12)
       = Inr [edited_tombstone_msg]
   \<and> deletedForEveryone edited_tombstone_msg = True
   \<and> msg_text edited_tombstone_msg = ''again''
   \<and> tombstone edited_tombstone_msg = False"
  by code_simp

section \<open>Marking as delivered and as read\<close>

lemma deliver_each_messages:
  assumes "distinct (map mid (messages w))" and "distinct (map mid ms)"
    and "set ms \<subseteq> set (messages w)"
  shows "messages (fst (deliver_each a now ms w))
           = map (\<lambda>y. if mid y \<in> mid ` set ms then pushDelivered a now y else y) (messages w)"
  using assms
proof (induction ms arbitrary: w)
  case Nil
  then show ?case by simp
next
  case (Cons x xs)
  let ?w' = "save (pushDelivered a now x) w"
  let ?f = "\<lambda>y. if mid y = mid x then pushDelivered a now y else y"
  let ?g = "\<lambda>y. if mid y \<in> mid ` set xs then pushDelivered a now y else y"
  have inj: "inj_on mid (set (messages w))"
    using Cons.prems(1) by (simp add: distinct_map)
  have x: "x \<in> set (messages w)"
    using Cons.prems(3) by simp
  have "messages ?w' = map (\<lambda>y. if mid y = mid x then pushDelivered a now x else y) (messages w)"
    using Cons.prems(1) by (simp add: messages_save updateOne_distinct)
  also have "\<dots> = map ?f (messages w)"
  proof (rule map_cong [OF refl])
    fix y
    assume "y \<in> set (messages w)"
    with inj x have "mid y = mid x \<Longrightarrow> y = x" by (auto dest: inj_onD)
    then show "(if mid y = mid x then pushDelivered a now x else y) = ?f y" by auto
  qed
  finally have m': "messages ?w' = map ?f (messages w)" .
  have d': "distinct (map mid (messages ?w'))"
    using Cons.prems(1) by (simp add: messages_save map_mid_updateOne)
  have fresh: "mid x \<notin> mid ` set xs"
    using Cons.prems(2) by simp
  have sub: "set xs \<subseteq> set (messages ?w')"
  proof
    fix z
    assume z: "z \<in> set xs"
    have ne: "mid z \<noteq> mid x"
    proof
      assume e: "mid z = mid x"
      from z have "mid z \<in> mid ` set xs" by (rule imageI)
      with e fresh show False by simp
    qed
    then have fz: "z = ?f z" by simp
    from z Cons.prems(3) have "z \<in> set (messages w)" by auto
    with fz have "z \<in> ?f ` set (messages w)" by (rule image_eqI)
    then show "z \<in> set (messages ?w')"
      by (simp only: m' set_map)
  qed
  have dx: "distinct (map mid xs)"
    using Cons.prems(2) by simp
  have "messages (fst (deliver_each a now (x # xs) w))
          = messages (fst (deliver_each a now xs ?w'))"
    by (simp add: Let_def case_prod_beta)
  also have "\<dots> = map ?g (messages ?w')"
    by (rule Cons.IH [OF d' dx sub])
  also have "\<dots> = map (\<lambda>y. ?g (?f y)) (messages w)"
    by (simp add: m' comp_def)
  also have "\<dots> = map (\<lambda>y. if mid y \<in> mid ` set (x # xs) then pushDelivered a now y else y)
                       (messages w)"
    using fresh by (intro map_cong [OF refl]) auto
  finally show ?case .
qed

lemma unread_list:
  "set (filter (undelivered a) (filter (\<lambda>m. \<not> list_ex (\<lambda>d. d = a) (deletedForMe m))
         (sort_key createdAt (filter (in_conversation a b) xs))))
     = {m \<in> set xs. to_deliver a b m}"
  by (auto simp: to_deliver_def)

lemma distinct_map_sort_key:
  "distinct (map f xs) \<Longrightarrow> distinct (map f (sort_key k xs))"
  by (simp add: distinct_map)

lemma fetch_messages:
  assumes "wf_store w"
  shows "messages (fst (snd (getMessagesByUserId w a b now)))
           = map (\<lambda>y. if to_deliver a b y then pushDelivered a now y else y) (messages w)"
proof -
  let ?ms = "filter (undelivered a) (filter (\<lambda>m. \<not> list_ex (\<lambda>d. d = a) (deletedForMe m))
         (sort_key createdAt (filter (in_conversation a b) (messages w))))"
  have d: "distinct (map mid (messages w))"
    using assms by (simp add: wf_store_def)
  then have inj: "inj_on mid (set (messages w))"
    by (simp add: distinct_map)
  have dm: "distinct (map mid ?ms)"
    using d by (intro distinct_map_filter distinct_map_sort_key)
  have sub: "set ?ms \<subseteq> set (messages w)"
    by auto
  have "messages (fst (snd (getMessagesByUserId w a b now)))
          = messages (fst (deliver_each a now ?ms w))"
    by (simp add: getMessagesByUserId_def Let_def case_prod_beta)
  also have "\<dots> = map (\<lambda>y. if mid y \<in> mid ` set ?ms then pushDelivered a now y else y)
                       (messages w)"
    by (rule deliver_each_messages [OF d dm sub])
  also have "\<dots> = map (\<lambda>y. if to_deliver a b y then pushDelivered a now y else y) (messages w)"
  proof (rule map_cong [OF refl])
    fix y
    assume y: "y \<in> set (messages w)"
    have "mid y \<in> mid ` set ?ms \<longleftrightarrow> to_deliver a b y"
    proof
      assume "mid y \<in> mid ` set ?ms"
      then obtain z where z: "z \<in> set ?ms" and "mid y = mid z" by auto
      with inj y sub have "y = z" by (auto dest: inj_onD)
      with z show "to_deliver a b y" by (simp add: to_deliver_def)
    next
      assume "to_deliver a b y"
      with y have "y \<in> set ?ms" by (simp add: to_deliver_def)
      then show "mid y \<in> mid ` set ?ms" by (rule imageI)
    qed
    then show "(if mid y \<in> mid ` set ?ms then pushDelivered a now y else y)
                 = (if to_deliver a b y then pushDelivered a now y else y)"
      by simp
  qed
  finally show ?thesis .
qed

lemma fetch_noop:
  assumes "\<forall>m \<in> set (messages w). \<not> to_deliver a b m"
  shows "snd (getMessagesByUserId w a b now) = (w, [])"
proof -
  have "set (filter (undelivered a) (filter (\<lambda>m. \<not> list_ex (\<lambda>d. d = a) (deletedForMe m))
         (sort_key createdAt (filter (in_conversation a b) (messages w))))) = {}"
    using assms by (simp only: unread_list) blast
  then have "filter (undelivered a) (filter (\<lambda>m. \<not> list_ex (\<lambda>d. d = a) (deletedForMe m))
         (sort_key createdAt (filter (in_conversation a b) (messages w)))) = []"
    by (simp only: set_empty)
  then show ?thesis
    by (simp add: getMessagesByUserId_def Let_def)
qed

lemma not_to_deliver_pushed: "\<not> to_deliver a b (pushDelivered a now m)"
  by (simp add: to_deliver_def undelivered_def pushDelivered_def list_ex_iff)

lemma fetch_twice:
  assumes "wf_store w"
  shows "snd (getMessagesByUserId (fst (snd (getMessagesByUserId w a b t1))) a b t2)
           = (fst (snd (getMessagesByUserId w a b t1)), [])"
proof (rule fetch_noop)
  show "\<forall>m \<in> set (messages (fst (snd (getMessagesByUserId w a b t1)))). \<not> to_deliver a b m"
    by (auto simp: fetch_messages [OF assms] not_to_deliver_pushed)
qed

lemma markRead_twice:
  "markMessageAsRead (fst (snd (markMessageAsRead w i u t1))) i u t2
     = (fst (markMessageAsRead w i u t1), fst (snd (markMessageAsRead w i u t1)), [])"
proof (cases "findById w i")
  case None
  then show ?thesis by (simp add: markMessageAsRead_def)
next
  case (Some m)
  then have "mid m = i" by (simp add: findById_D)
  with Some show ?thesis
    by (simp add: markMessageAsRead_def Let_def findById_save list_ex_iff)
qed

lemma receipts_distinct_step:
  assumes "\<forall>m \<in> set (messages w). distinct (map fst (readBy m)) \<and> distinct (map fst (deliveredTo m))"
    and "whole rq"
  shows "\<forall>m \<in> set (messages (step w rq)).
           distinct (map fst (readBy m)) \<and> distinct (map fst (deliveredTo m))"
  using assms(1)
  by (rule step_preserves)
    (use assms(2) in \<open>auto simp: pushDelivered_def newMessage_def undelivered_def list_ex_iff\<close>)

lemma receipts_distinct_run:
  "\<forall>m \<in> set (messages w). distinct (map fst (readBy m)) \<and> distinct (map fst (deliveredTo m)) \<Longrightarrow>
   list_all whole rqs \<Longrightarrow>
   \<forall>m \<in> set (messages (run w rqs)).
      distinct (map fst (readBy m)) \<and> distinct (map fst (deliveredTo m))"
proof (induction rqs arbitrary: w)
  case Nil
  then show ?case by simp
next
  case (Cons rq rqs)
  from Cons.prems(2) have wh: "whole rq" and whs: "list_all whole rqs" by simp_all
  from Cons.IH [OF receipts_distinct_step [OF Cons.prems(1) wh] whs] show ?case by simp
qed

lemma receipts_grow:
  assumes "wf_store w" and "findById w i = Some m"
  shows "\<exists>m'. findById (run w rqs) i = Some m'
           \<and> prefix (readBy m) (readBy m') \<and> prefix (deliveredTo m) (deliveredTo m')"
proof -
  let ?Q = "\<lambda>x. prefix (readBy m) (readBy x) \<and> prefix (deliveredTo m) (deliveredTo x)"
  have ex: "i \<in> mid ` set (messages w)"
    using findById_D [OF assms(2)] by force
  have inv: "\<forall>x \<in> set (messages w). mid x = i \<longrightarrow> ?Q x"
    using wf_store_unique [OF assms] by auto
  have "i \<in> mid ` set (messages (run w rqs))
         \<and> (\<forall>x \<in> set (messages (run w rqs)). mid x = i \<longrightarrow> ?Q x)"
    using ex inv
  proof (induction rqs arbitrary: w)
    case Nil
    then show ?case by simp
  next
    case (Cons rq rqs)
    have 1: "i \<in> mid ` set (messages (step w rq))"
      using Cons.prems(1) by (rule mids_kept)
    have 2: "\<forall>x \<in> set (messages (step w rq)). mid x = i \<longrightarrow> ?Q x"
    proof (cases "whole rq")
      case True
      from Cons.prems show ?thesis
        by (rule step_at_id) (simp_all add: pushDelivered_def True)
    next
      case False
      show ?thesis
      proof (intro ballI impI)
        fix x
        assume x: "x \<in> set (messages (step w rq))" and i: "mid x = i"
        from second_step_messages [OF False x] obtain s where s: "s \<in> set (messages w)"
          and ms: "mid x = mid s" and r: "prefix (readBy s) (readBy x)"
          and d: "prefix (deliveredTo s) (deliveredTo x)"
          by blast
        from Cons.prems(2) s ms i have "?Q s" by simp
        with r d show "?Q x"
          using prefix_order.trans by blast
      qed
    qed
    from Cons.IH [OF 1 2] show ?case by simp
  qed
  then show ?thesis
    using findById_ex [of i "run w rqs"] findById_D [of "run w rqs" i] by blast
qed

lemma find_map_mid:
  assumes "\<And>y. mid (f y) = mid y"
  shows "find (\<lambda>x. mid x = i) (map f xs) = map_option f (find (\<lambda>x. mid x = i) xs)"
  by (induction xs) (simp_all add: assms)

lemma fetch_keeps_delivered:
  assumes "wf_store w" and "findById w i = Some m" and "a \<in> fst ` set (deliveredTo m)"
  shows "findById (fst (snd (getMessagesByUserId w a b now))) i = Some m"
proof -
  have "\<not> to_deliver a b m"
    using assms(3) by (fastforce simp: to_deliver_def undelivered_def list_ex_iff image_iff)
  then show ?thesis
    using assms(2)
    by (simp add: findById_def fetch_messages [OF assms(1)] find_map_mid)
qed

text \<open>
  Marking as read a message that the user has read already changes nothing,
  and so does a second mark after a first; a fetch changes nothing when the caller is
  recorded in \<open>deliveredTo\<close> of every message of the conversation sent to them, it leaves
  any message as it is that records the caller already, and a second fetch after a first
  changes nothing. Along any run \<open>readBy\<close> and \<open>deliveredTo\<close> of a message only grow at
  the end, and along a run of whole requests they never come to hold a user twice.
\<close>

theorem receipts_idempotent_monotone:
  "(findById w i = Some m \<and> u \<in> fst ` set (readBy m) \<longrightarrow>
      markMessageAsRead w i u now = (Inr ''Message marked as read'', w, []))
   \<and> markMessageAsRead (fst (snd (markMessageAsRead w i u t1))) i u t2
       = (fst (markMessageAsRead w i u t1), fst (snd (markMessageAsRead w i u t1)), [])
   \<and> ((\<forall>x \<in> set (messages w). in_conversation a b x \<and> receiverId x = a
            \<longrightarrow> a \<in> fst ` set (deliveredTo x))
        \<longrightarrow> snd (getMessagesByUserId w a b now) = (w, []))
   \<and> (wf_store w \<and> findById w i = Some m \<and> a \<in> fst ` set (deliveredTo m) \<longrightarrow>
        findById (fst (snd (getMessagesByUserId w a b now))) i = Some m)
   \<and> (wf_store w \<longrightarrow>
        snd (getMessagesByUserId (fst (snd (getMessagesByUserId w a b t1))) a b t2)
          = (fst (snd (getMessagesByUserId w a b t1)), []))
   \<and> (wf_store w \<and> findById w i = Some m \<longrightarrow>
        (\<exists>m'. findById (run w rqs) i = Some m'
           \<and> prefix (readBy m) (readBy m') \<and> prefix (deliveredTo m) (deliveredTo m')))
   \<and> (list_all whole rqs
        \<and> (\<forall>x \<in> set (messages w).
              distinct (map fst (readBy x)) \<and> distinct (map fst (deliveredTo x)))
        \<longrightarrow> (\<forall>x \<in> set (messages (run w rqs)).
               distinct (map fst (readBy x)) \<and> distinct (map fst (deliveredTo x))))"
proof -
  have 1: "findById w i = Some m \<and> u \<in> fst ` set (readBy m) \<longrightarrow>
      markMessageAsRead w i u now = (Inr ''Message marked as read'', w, [])"
    by (auto simp: markMessageAsRead_def list_ex_iff)
  have 3: "(\<forall>x \<in> set (messages w). in_conversation a b x \<and> receiverId x = a
            \<longrightarrow> a \<in> fst ` set (deliveredTo x))
        \<longrightarrow> snd (getMessagesByUserId w a b now) = (w, [])"
  proof
    assume h: "\<forall>x \<in> set (messages w). in_conversation a b x \<and> receiverId x = a
            \<longrightarrow> a \<in> fst ` set (deliveredTo x)"
    have "\<forall>x \<in> set (messages w). \<not> to_deliver a b x"
    proof
      fix x
      assume "x \<in> set (messages w)"
      with h have "in_conversation a b x \<and> receiverId x = a
            \<longrightarrow> a \<in> fst ` set (deliveredTo x)" by blast
      then show "\<not> to_deliver a b x"
        by (fastforce simp: to_deliver_def undelivered_def list_ex_iff image_iff)
    qed
    then show "snd (getMessagesByUserId w a b now) = (w, [])"
      by (rule fetch_noop)
  qed
  have 5: "wf_store w \<and> findById w i = Some m \<longrightarrow>
        (\<exists>m'. findById (run w rqs) i = Some m'
           \<and> prefix (readBy m) (readBy m') \<and> prefix (deliveredTo m) (deliveredTo m'))"
    using receipts_grow [of w i m rqs] by blast
  have 6: "list_all whole rqs
        \<and> (\<forall>x \<in> set (messages w).
              distinct (map fst (readBy x)) \<and> distinct (map fst (deliveredTo x)))
        \<longrightarrow> (\<forall>x \<in> set (messages (run w rqs)).
               distinct (map fst (readBy x)) \<and> distinct (map fst (deliveredTo x)))"
    using receipts_distinct_run [of w rqs] by blast
  have 4: "wf_store w \<and> findById w i = Some m \<and> a \<in> fst ` set (deliveredTo m) \<longrightarrow>
        findById (fst (snd (getMessagesByUserId w a b now))) i = Some m"
    using fetch_keeps_delivered [of w i m a b now] by blast
  from 1 markRead_twice [of w i u t1 t2] 3 4 fetch_twice [of w a b t1 t2] 5 6
  show ?thesis by (intro conjI impI) blast+
qed

lemma run_receipts_example: "run world_sent receipts_example = world_receipts"
  by code_simp

theorem receipts_idempotent_monotone_witness:
  "wf_store world_sent \<and> findById world_sent 7 = Some hello_msg
   \<and> run world_sent receipts_example = world_receipts
   \<and> findById world_receipts 7 = Some read_msg
   \<and> readBy hello_msg = [] \<and> readBy read_msg = [(3, 9)]
   \<and> deliveredTo hello_msg = [(1, 5)] \<and> deliveredTo read_msg = [(1, 5), (3, 10)]
   \<and> prefix (readBy hello_msg) (readBy read_msg)
   \<and> prefix (deliveredTo hello_msg) (deliveredTo read_msg)
   \<and> distinct (map fst (readBy read_msg)) \<and> distinct (map fst (deliveredTo read_msg))
   \<and> markMessageAsRead world_receipts 7 3 13 = (Inr ''Message marked as read'', world_receipts, [])
   \<and> snd (getMessagesByUserId world_receipts 3 1 14) = (world_receipts, [])"
proof -
  have wf: "wf_store world_sent"
    by (simp add: wf_store_def world_sent_def)
  have f: "findById world_sent 7 = Some hello_msg"
    by (simp add: findById_def world_sent_def hello_msg_def)
  have f': "findById world_receipts 7 = Some read_msg"
    by (simp add: findById_def world_receipts_def read_msg_def hello_msg_def)
  have r: "3 \<in> fst ` set (readBy read_msg)"
    by (simp add: read_msg_def)
  have d: "\<forall>x \<in> set (messages world_receipts). in_conversation 3 1 x \<and> receiverId x = 3
            \<longrightarrow> 3 \<in> fst ` set (deliveredTo x)"
    by (simp add: world_receipts_def read_msg_def)
  have i: "\<forall>x \<in> set (messages world_sent).
             distinct (map fst (readBy x)) \<and> distinct (map fst (deliveredTo x))"
    by (simp add: world_sent_def hello_msg_def)
  have mem: "read_msg \<in> set (messages world_receipts)"
    by (simp add: world_receipts_def)
  have v: "readBy hello_msg = [] \<and> readBy read_msg = [(3, 9)]
      \<and> deliveredTo hello_msg = [(1, 5)] \<and> deliveredTo read_msg = [(1, 5), (3, 10)]"
    by (simp add: read_msg_def hello_msg_def)
  note start = receipts_idempotent_monotone [of world_sent 7 hello_msg 3 9 9 9 3 1 receipts_example]
  from start wf f
  have "\<exists>m'. findById (run world_sent receipts_example) 7 = Some m'
           \<and> prefix (readBy hello_msg) (readBy m')
           \<and> prefix (deliveredTo hello_msg) (deliveredTo m')"
    by blast
  then have grow: "prefix (readBy hello_msg) (readBy read_msg)
      \<and> prefix (deliveredTo hello_msg) (deliveredTo read_msg)"
    by (simp add: run_receipts_example f')
  have wh: "list_all whole receipts_example"
    by (simp add: receipts_example_def)
  from start wh i
  have "\<forall>x \<in> set (messages (run world_sent receipts_example)).
          distinct (map fst (readBy x)) \<and> distinct (map fst (deliveredTo x))"
    by blast
  with mem have dist: "distinct (map fst (readBy read_msg))
      \<and> distinct (map fst (deliveredTo read_msg))"
    by (simp only: run_receipts_example)
  from receipts_idempotent_monotone [of world_receipts 7 read_msg 3 13 13 13 3 1 "[]"] f' r d
  have "markMessageAsRead world_receipts 7 3 13 = (Inr ''Message marked as read'', world_receipts, [])
    \<and> snd (getMessagesByUserId world_receipts 3 1 13) = (world_receipts, [])"
    by blast
  moreover have "snd (getMessagesByUserId world_receipts 3 1 14) = (world_receipts, [])"
    using receipts_idempotent_monotone [of world_receipts 7 read_msg 3 14 13 13 3 1 "[]"] d
    by blast
  ultimately show ?thesis
    using wf f f' v grow dist run_receipts_example by simp
qed

text \<open>
  Claim C6 says that \<open>readBy\<close> and \<open>deliveredTo\<close> never hold a user twice. Bob's client sends
  the read mark for message 7 twice so that the requests overlap: both load the message
  before either saves, both find \<^verbatim>\<open>alreadyRead\<close> false on their copy, and both push and
  save. The stored \<open>readBy\<close> then holds Bob twice. Two overlapping fetches of the
  conversation by Bob do the same to \<open>deliveredTo\<close>.
\<close>

theorem overlapping_marks_duplicate_entries:
  "findById world_sent 7 = Some hello_msg
   \<and> readBy hello_msg = [] \<and> undelivered 3 hello_msg
   \<and> messages (run world_sent [RMarkReadSave hello_msg 3 9, RMarkReadSave hello_msg 3 10])
       = [hello_msg\<lparr>readBy := [(3, 9), (3, 10)]\<rparr>]
   \<and> messages (run world_sent [RDeliverOne hello_msg 3 9, RDeliverOne hello_msg 3 10])
       = [hello_msg\<lparr>deliveredTo := [(1, 5), (3, 9), (3, 10)]\<rparr>]
   \<and> distinct (map fst [(3 :: nat, 9 :: nat), (3, 10)]) = False"
  by code_simp

end
